theory Spec2Isabelle
  imports Main "HOL-Library.Word" "HOL-Library.AList"
begin

unbundle bit_operations_syntax

section \<open>JavaScript values used by BleManager.js\<close>

text \<open>
  A JavaScript number is modelled by \<open>jsnum\<close>: an integer, or NaN. Every number the
  modelled functions handle is an integer (bytes, calendar fields, clamped sizes);
  fractions and infinities are outside the model. An array element is a number or a
  string (\<open>jsval\<close>).
\<close>

datatype jsnum = JNum int | JNaN

datatype jsval = N jsnum | S string

type_synonym byte = "8 word"

text \<open>\<open>isNaN(x)\<close> on a number.\<close>

definition isNaN :: "jsnum \<Rightarrow> bool" where
  "isNaN x = (case x of JNaN \<Rightarrow> True | JNum _ \<Rightarrow> False)"

text \<open>
  The value of one digit character in \<open>parseInt\<close> and in numeric literals:
  \<open>0-9\<close>, then \<open>a-z\<close> and \<open>A-Z\<close> from ten upwards.
\<close>

definition digitValue :: "char \<Rightarrow> nat option" where
  "digitValue c =
     (let n = (of_char c :: nat) in
      if 48 \<le> n \<and> n \<le> 57 then Some (n - 48)
      else if 97 \<le> n \<and> n \<le> 122 then Some (n - 87)
      else if 65 \<le> n \<and> n \<le> 90 then Some (n - 55)
      else None)"

text \<open>
  The digit loop of \<open>parseInt\<close>: it consumes the longest prefix of digits valid in the
  radix. The accumulator is \<open>None\<close> until a digit has been read.
\<close>

fun parseDigits :: "nat \<Rightarrow> string \<Rightarrow> nat option \<Rightarrow> nat option" where
  "parseDigits r [] acc = acc"
| "parseDigits r (c # cs) acc =
     (case digitValue c of
        None \<Rightarrow> acc
      | Some d \<Rightarrow>
          if d < r
          then parseDigits r cs (Some ((case acc of None \<Rightarrow> 0 | Some a \<Rightarrow> a) * r + d))
          else acc)"

definition isWhiteSpace :: "char \<Rightarrow> bool" where
  "isWhiteSpace c = (c = CHR '' '' \<or> c = CHR 0x09 \<or> c = CHR 0x0A \<or> c = CHR 0x0B
     \<or> c = CHR 0x0C \<or> c = CHR 0x0D)"

definition hasHexPrefix :: "string \<Rightarrow> bool" where
  "hasHexPrefix s = (take 2 s = ''0x'' \<or> take 2 s = ''0X'')"

text \<open>
  \<open>parseInt(s, radix)\<close>; \<open>radix = None\<close> is the call with one argument. Leading white
  space is dropped, a sign is read, a \<open>0x\<close>/\<open>0X\<close> prefix is dropped when the radix is 16
  or absent (and then selects radix 16), and the digits are read; no digit gives NaN.
\<close>

definition parseInt :: "string \<Rightarrow> nat option \<Rightarrow> jsnum" where
  "parseInt s radix =
     (let s1 = dropWhile isWhiteSpace s;
          neg = (take 1 s1 = ''-'');
          s2 = (if take 1 s1 = ''-'' \<or> take 1 s1 = ''+'' then drop 1 s1 else s1);
          strip = ((radix = None \<or> radix = Some 16) \<and> hasHexPrefix s2);
          r = (case radix of None \<Rightarrow> (if strip then 16 else 10) | Some k \<Rightarrow> k);
          s3 = (if strip then drop 2 s2 else s2)
      in case parseDigits r s3 None of
           None \<Rightarrow> JNaN
         | Some n \<Rightarrow> JNum (if neg then - int n else int n))"

text \<open>
  \<open>Number(s)\<close> on the strings the glucometer payloads hold, each \<open>0X\<close> followed by the
  print of a number: \<open>0x\<close>/\<open>0X\<close> followed only by hexadecimal digits is that number,
  and \<open>0x\<close>/\<open>0X\<close> followed by anything else is NaN. The empty string (0) and a
  string of decimal digits (that number) are read too. The function is applied to
  \<open>0X\<close> strings only: on other strings that \<open>Number\<close> converts (with a sign, a
  fraction, an exponent, a binary or octal prefix, \<open>Infinity\<close>) it is not the conversion
  of JavaScript, and nothing below depends on its value there.
\<close>

definition allDigits :: "nat \<Rightarrow> string \<Rightarrow> bool" where
  "allDigits r s = (s \<noteq> [] \<and> list_all (\<lambda>c. case digitValue c of None \<Rightarrow> False | Some d \<Rightarrow> d < r) s)"

definition stringToNumber :: "string \<Rightarrow> jsnum" where
  "stringToNumber s =
     (let t = rev (dropWhile isWhiteSpace (rev (dropWhile isWhiteSpace s))) in
      if t = [] then JNum 0
      else if hasHexPrefix t then
        (if allDigits 16 (drop 2 t)
         then (case parseDigits 16 (drop 2 t) None of None \<Rightarrow> JNaN | Some n \<Rightarrow> JNum (int n))
         else JNaN)
      else if allDigits 10 t then
        (case parseDigits 10 t None of None \<Rightarrow> JNaN | Some n \<Rightarrow> JNum (int n))
      else JNaN)"

text \<open>
  \<open>Number(v)\<close> on an element of the array a glucometer payload is built from: a
  number, or one of the \<open>0X\<close> strings.
\<close>

definition ToNumber :: "jsval \<Rightarrow> jsnum" where
  "ToNumber v = (case v of N x \<Rightarrow> x | S s \<Rightarrow> stringToNumber s)"

text \<open>
  \<open>n.toString(radix)\<close> on an integer: the digits \<open>0-9a-z\<close>, most significant first, after
  a minus sign for a negative number; NaN prints as \<open>NaN\<close>.
\<close>

definition digitChar :: "nat \<Rightarrow> char" where
  "digitChar d = ''0123456789abcdefghijklmnopqrstuvwxyz'' ! d"

function natToString :: "nat \<Rightarrow> nat \<Rightarrow> string" where
  "natToString r n =
     (if n < r \<or> r < 2 then [digitChar n]
      else natToString r (n div r) @ [digitChar (n mod r)])"
  by pat_completeness auto
termination
  by (relation "measure (\<lambda>(r, n). n)") auto

definition numberToString :: "jsnum \<Rightarrow> nat \<Rightarrow> string" where
  "numberToString x r =
     (case x of
        JNaN \<Rightarrow> ''NaN''
      | JNum n \<Rightarrow> if n < 0 then ''-'' @ natToString r (nat (- n)) else natToString r (nat n))"

text \<open>\<open>a + b\<close> on numbers and \<open>a % k\<close> (the remainder takes the sign of \<open>a\<close>).\<close>

definition js_add :: "jsnum \<Rightarrow> jsnum \<Rightarrow> jsnum" where
  "js_add a b = (case (a, b) of (JNum x, JNum y) \<Rightarrow> JNum (x + y) | _ \<Rightarrow> JNaN)"

definition js_rem :: "jsnum \<Rightarrow> int \<Rightarrow> jsnum" where
  "js_rem a k = (case a of JNaN \<Rightarrow> JNaN | JNum x \<Rightarrow> JNum (sgn x * (\<bar>x\<bar> mod \<bar>k\<bar>)))"

text \<open>\<open>s.substr(-2)\<close>: the last two characters (the whole string when it is shorter).\<close>

definition substr_last2 :: "string \<Rightarrow> string" where
  "substr_last2 s = drop (length s - 2) s"

text \<open>The conversions of the bitwise operators and of typed-array stores: NaN is 0.\<close>

definition ToInt32 :: "jsnum \<Rightarrow> 32 word" where
  "ToInt32 x = (case x of JNaN \<Rightarrow> 0 | JNum n \<Rightarrow> word_of_int n)"

definition ToUint8 :: "jsnum \<Rightarrow> byte" where
  "ToUint8 x = (case x of JNaN \<Rightarrow> 0 | JNum n \<Rightarrow> word_of_int n)"

definition ToUint16 :: "jsnum \<Rightarrow> 16 word" where
  "ToUint16 x = (case x of JNaN \<Rightarrow> 0 | JNum n \<Rightarrow> word_of_int n)"

text \<open>\<open>a ^ b\<close>: both operands to 32 bits, the result a signed 32-bit number.\<close>

definition js_xor :: "jsnum \<Rightarrow> jsnum \<Rightarrow> jsnum" where
  "js_xor a b = JNum (sint (ToInt32 a XOR ToInt32 b))"

text \<open>\<open>s.slice(a, b)\<close> for non-negative \<open>a\<close> and \<open>b\<close>: both ends are cut at the length.\<close>

definition slice :: "string \<Rightarrow> nat \<Rightarrow> nat \<Rightarrow> string" where
  "slice s a b = take (b - a) (drop a s)"

text \<open>\<open>new Uint8Array(n)\<close>, an indexed store into it, and \<open>new Uint8Array([...])\<close>.\<close>

definition Uint8Array_new :: "nat \<Rightarrow> byte list" where
  "Uint8Array_new n = replicate n 0"

definition store8 :: "byte list \<Rightarrow> nat \<Rightarrow> jsnum \<Rightarrow> byte list" where
  "store8 a i v = (if i < length a then a[i := ToUint8 v] else a)"

definition Uint8Array_from :: "jsval list \<Rightarrow> byte list" where
  "Uint8Array_from vs = map (\<lambda>v. ToUint8 (ToNumber v)) vs"

section \<open>Checksums\<close>

text \<open>
  \<open>calculateChecksum(array)\<close>, called on byte arrays: the loop adds every element,
  and the result is \<open>sum & 0xff\<close> (the source's \<open>sum\<close> is \<open>sm\<close> here).
\<close>

function calculateChecksum_loop :: "byte list \<Rightarrow> nat \<Rightarrow> int \<Rightarrow> int" where
  "calculateChecksum_loop array i sm =
     (if i < length array
      then calculateChecksum_loop array (i + 1) (sm + uint (array ! i))
      else sm)"
  by pat_completeness auto
termination
  by (relation "measure (\<lambda>(array, i, sm). length array - i)") auto

definition calculateChecksum :: "byte list \<Rightarrow> jsnum" where
  "calculateChecksum array = JNum (sint ((word_of_int (calculateChecksum_loop array 0 0) :: 32 word) AND 0xff))"

text \<open>
  \<open>XOR(input)\<close> (here \<open>XOR_js\<close>, since \<open>XOR\<close> is the bitwise operator of HOL) on an
  array (the test that \<open>input\<close> is an array always passes for a list). The elements
  may be any values: \<open>toNumber\<close> is JavaScript's \<open>Number\<close> on them, a parameter of
  the model, and \<open>isNaN(input[i])\<close> is \<open>isNaN\<close> of that conversion. \<open>total\<close> starts as
  \<open>Number(input[0])\<close>, which is NaN for the empty array; the loop then runs from index
  0, skipping the elements that are not numbers.
\<close>

function XOR_loop :: "('v \<Rightarrow> jsnum) \<Rightarrow> 'v list \<Rightarrow> nat \<Rightarrow> jsnum \<Rightarrow> jsnum" where
  "XOR_loop toNumber input i tot =
     (if i < length input
      then (if isNaN (toNumber (input ! i))
            then XOR_loop toNumber input (i + 1) tot
            else XOR_loop toNumber input (i + 1) (js_xor tot (toNumber (input ! i))))
      else tot)"
  by pat_completeness auto
termination
  by (relation "measure (\<lambda>(toNumber, input, i, tot). length input - i)") auto

definition XOR_js :: "('v \<Rightarrow> jsnum) \<Rightarrow> 'v list \<Rightarrow> jsnum" where
  "XOR_js toNumber input =
     XOR_loop toNumber input 0 (case input of [] \<Rightarrow> JNaN | x # _ \<Rightarrow> toNumber x)"

text \<open>
  The numeric elements of an array, as \<open>XOR\<close> tests them (\<open>isNaN\<close> after conversion), and
  the exclusive-or of a list of numbers from 0, on 32 bits.
\<close>

definition numeric :: "('v \<Rightarrow> jsnum) \<Rightarrow> 'v list \<Rightarrow> jsnum list" where
  "numeric toNumber b = filter (\<lambda>x. \<not> isNaN x) (map toNumber b)"

definition xor_fold :: "jsnum list \<Rightarrow> 32 word" where
  "xor_fold xs = foldl (\<lambda>acc x. acc XOR ToInt32 x) 0 xs"

text \<open>
  The checksum as the specification words it: the left fold of exclusive-or over all
  numeric elements, the first one included once.
\<close>

definition spec_xorChecksum :: "('v \<Rightarrow> jsnum) \<Rightarrow> 'v list \<Rightarrow> jsnum" where
  "spec_xorChecksum toNumber b = JNum (sint (xor_fold (numeric toNumber b)))"

text \<open>One round of the loop of \<open>XOR\<close>, as a function of the running total.\<close>

definition XOR_step :: "('v \<Rightarrow> jsnum) \<Rightarrow> jsnum \<Rightarrow> 'v \<Rightarrow> jsnum" where
  "XOR_step toNumber tot v = (if isNaN (toNumber v) then tot else js_xor tot (toNumber v))"

section \<open>Tracker frames\<close>

text \<open>
  The frame of \<open>setDeviceTime(deviceIdentifier, date, transactionId)\<close>: sixteen zero
  bytes, the opcode, six two-character pieces of the date read as hexadecimal, and the
  checksum of the whole array stored at index 15.
\<close>

definition setDeviceTime_frame :: "string \<Rightarrow> byte list" where
  "setDeviceTime_frame date =
     (let uint16 = Uint8Array_new 16;
          uint16 = store8 uint16 0 (JNum 0x01);
          uint16 = store8 uint16 1 (parseInt (slice date 2 4) (Some 16));
          uint16 = store8 uint16 2 (parseInt (slice date 5 7) (Some 16));
          uint16 = store8 uint16 3 (parseInt (slice date 8 10) (Some 16));
          uint16 = store8 uint16 4 (parseInt (slice date 11 13) (Some 16));
          uint16 = store8 uint16 5 (parseInt (slice date 14 16) (Some 16));
          uint16 = store8 uint16 6 (parseInt (slice date 17 19) (Some 16));
          uint16 = store8 uint16 15 (calculateChecksum uint16)
      in uint16)"

section \<open>The base64 encoder\<close>

definition encodings :: string where
  "encodings = ''ABCDEFGHIJKLMNOPQRSTUVWXYZabcdefghijklmnopqrstuvwxyz0123456789+/''"

text \<open>\<open>encodings[a]\<close>; every index the encoder computes is below 64.\<close>

definition enc :: "32 word \<Rightarrow> char" where
  "enc a = encodings ! unat a"

text \<open>
  The main loop of \<open>base64ArrayBuffer\<close>: three bytes are combined into \<open>chunk\<close>, four
  6-bit segments are cut out with the source's masks and shifts (\<open>>>\<close> is the signed
  shift of a 32-bit number), and four characters are appended. \<open>mainLength\<close> is a
  multiple of 3 within the buffer, so the loop reads inside the buffer only.
\<close>

function base64_main_loop :: "byte list \<Rightarrow> nat \<Rightarrow> nat \<Rightarrow> string \<Rightarrow> string" where
  "base64_main_loop bytes mainLength i base64 =
     (if i < mainLength
      then (let chunk = (push_bit 16 (ucast (bytes ! i)) OR push_bit 8 (ucast (bytes ! (i + 1)))
                          OR ucast (bytes ! (i + 2)) :: 32 word);
                a = signed_drop_bit 18 (chunk AND 16515072);
                b = signed_drop_bit 12 (chunk AND 258048);
                c = signed_drop_bit 6 (chunk AND 4032);
                d = chunk AND 63
            in base64_main_loop bytes mainLength (i + 3) (base64 @ [enc a, enc b, enc c, enc d]))
      else base64)"
  by pat_completeness auto
termination
  by (relation "measure (\<lambda>(bytes, mainLength, i, base64). mainLength - i)") auto

text \<open>
  \<open>base64ArrayBuffer(arrayBuffer)\<close>, on the bytes of \<open>new Uint8Array(arrayBuffer)\<close>: the
  main loop over the first \<open>mainLength\<close> bytes, then one or two remaining bytes with
  their padding.
\<close>

definition base64ArrayBuffer :: "byte list \<Rightarrow> string" where
  "base64ArrayBuffer bytes =
     (let byteLength = length bytes;
          byteRemainder = byteLength mod 3;
          mainLength = byteLength - byteRemainder;
          base64 = base64_main_loop bytes mainLength 0 []
      in if byteRemainder = 1 then
           (let chunk = (ucast (bytes ! mainLength) :: 32 word);
                a = signed_drop_bit 2 (chunk AND 252);
                b = push_bit 4 (chunk AND 3)
            in base64 @ [enc a, enc b] @ ''=='')
         else if byteRemainder = 2 then
           (let chunk = (push_bit 8 (ucast (bytes ! mainLength))
                           OR ucast (bytes ! (mainLength + 1)) :: 32 word);
                a = signed_drop_bit 10 (chunk AND 64512);
                b = signed_drop_bit 4 (chunk AND 1008);
                c = push_bit 2 (chunk AND 15)
            in base64 @ [enc a, enc b, enc c] @ ''='')
         else base64)"

subsection \<open>A standard base64 decoder\<close>

text \<open>
  The decoder the round trip is stated against is not part of BleManager.js. It is the
  standard one: the input is read four characters at a time, each character stands for
  its position in the alphabet \<open>A-Z a-z 0-9 + /\<close>, four positions make 24 bits and
  three bytes; a last group ending in \<open>==\<close> gives one byte and a last group ending in
  \<open>=\<close> gives two. Any other input is rejected.
\<close>

fun index_of :: "'a \<Rightarrow> 'a list \<Rightarrow> nat option" where
  "index_of x [] = None"
| "index_of x (y # ys) = (if x = y then Some 0 else map_option Suc (index_of x ys))"

definition sextet :: "char \<Rightarrow> 32 word option" where
  "sextet c = map_option of_nat (index_of c encodings)"

definition decode_byte :: "32 word \<Rightarrow> nat \<Rightarrow> byte" where
  "decode_byte n k = ucast (drop_bit k n AND 255)"

fun base64_decode :: "string \<Rightarrow> byte list option" where
  "base64_decode [] = Some []"
| "base64_decode (c1 # c2 # c3 # c4 # rest) =
     (if rest = [] \<and> c3 = CHR ''='' \<and> c4 = CHR ''='' then
        (case (sextet c1, sextet c2) of
           (Some s1, Some s2) \<Rightarrow>
             (let n = push_bit 18 s1 OR push_bit 12 s2 in Some [decode_byte n 16])
         | _ \<Rightarrow> None)
      else if rest = [] \<and> c4 = CHR ''='' then
        (case (sextet c1, sextet c2, sextet c3) of
           (Some s1, Some s2, Some s3) \<Rightarrow>
             (let n = push_bit 18 s1 OR push_bit 12 s2 OR push_bit 6 s3
              in Some [decode_byte n 16, decode_byte n 8])
         | _ \<Rightarrow> None)
      else
        (case (sextet c1, sextet c2, sextet c3, sextet c4) of
           (Some s1, Some s2, Some s3, Some s4) \<Rightarrow>
             (let n = push_bit 18 s1 OR push_bit 12 s2 OR push_bit 6 s3 OR s4
              in map_option (\<lambda>bs. decode_byte n 16 # decode_byte n 8 # decode_byte n 0 # bs)
                   (base64_decode rest))
         | _ \<Rightarrow> None))"
| "base64_decode _ = None"

section \<open>Scale frames\<close>

text \<open>
  The frame of \<open>setUserProfileToAlternativeScale(deviceIdentifier, user, age, height,
  gender, transactionId)\<close>. \<open>parseInt\<close> of a number reads its decimal print.
\<close>

definition setUserProfileToAlternativeScale_frame :: "string \<Rightarrow> int \<Rightarrow> int \<Rightarrow> int \<Rightarrow> byte list" where
  "setUserProfileToAlternativeScale_frame user age height gender =
     (let heightUnit = (if height < 100 then 100 else if height > 218 then 218 else height);
          ageUnit = (if age < 10 then 10 else if age > 98 then 98 else age);
          uint16 = Uint8Array_new 13;
          uint16 = store8 uint16 0 (JNum 0x81);
          uint16 = store8 uint16 1 (JNum 0x00);
          uint16 = store8 uint16 2 (JNum 0x81);
          uint16 = store8 uint16 3 (parseInt (slice user 0 2) (Some 16));
          uint16 = store8 uint16 4 (parseInt (slice user 2 4) (Some 16));
          uint16 = store8 uint16 5 (parseInt (slice user 4 6) (Some 16));
          uint16 = store8 uint16 6 (parseInt (slice user 6 8) (Some 16));
          uint16 = store8 uint16 7 (JNum 0x00);
          uint16 = store8 uint16 8 (parseInt (numberToString (JNum heightUnit) 10) None);
          uint16 = store8 uint16 9 (parseInt (numberToString (JNum ageUnit) 10) None);
          uint16 = store8 uint16 10 (parseInt (numberToString (JNum gender) 10) None);
          uint16 = store8 uint16 11 (JNum 0x00);
          uint16 = store8 uint16 12 (JNum 0x00)
      in uint16)"

text \<open>
  \<open>setUserProfileToScales(deviceIdentifier, age, height, gender, transactionId)\<close> builds
  a \<open>Uint16Array\<close> of seven elements. \<open>ageUnit\<close> is computed and not used again;
  \<open>genderUnit\<close> is computed from \<open>age\<close>.
\<close>

definition setUserProfileToScales_array :: "int \<Rightarrow> int \<Rightarrow> string \<Rightarrow> 16 word list" where
  "setUserProfileToScales_array age height gender =
     (let ageUnit = (if age < 10 then 10 else if age > 98 then 98 else age);
          genderUnit = (if gender = ''male'' then age + 128 else age);
          heightUnit = (if height < 100 then 100 else if height > 218 then 218 else height)
      in map ToUint16 [JNum 0xfd, JNum 0x53, JNum 0x00, JNum 0x00, JNum 0xff,
                       JNum genderUnit, JNum heightUnit])"

text \<open>
  \<open>base64ArrayBuffer(array)\<close> starts with \<open>new Uint8Array(array)\<close>, which converts each
  16-bit element to a byte: these are the bytes that are encoded and written.
\<close>

definition setUserProfileToScales_bytes :: "int \<Rightarrow> int \<Rightarrow> string \<Rightarrow> byte list" where
  "setUserProfileToScales_bytes age height gender =
     map ucast (setUserProfileToScales_array age height gender)"


section \<open>Glucometer frames\<close>

text \<open>
  Both glucometer commands read the clock with \<open>new Date()\<close>; the calendar fields it
  returns are the input here (\<open>getMonth()\<close> counts from 0).
\<close>

record wallclock =
  getFullYear :: nat
  getMonth :: nat
  getDate :: nat
  getHours :: nat
  getMinutes :: nat

text \<open>
  The two functions differ in the third element of the payload only (\<open>0x03\<close> and
  \<open>0x00\<close>); the five fields and the expression of the last element are the same text.
\<close>

definition glucometer_payload :: "int \<Rightarrow> wallclock \<Rightarrow> byte list" where
  "glucometer_payload opcode currentTime =
     (let year = ''0X'' @ numberToString
                   (parseInt (substr_last2 (numberToString (JNum (int (getFullYear currentTime))) 10)) None) 16;
          month = ''0X'' @ numberToString (JNum (int (getMonth currentTime) + 1)) 16;
          dayNumber = ''0X'' @ numberToString (JNum (int (getDate currentTime))) 16;
          hour = ''0X'' @ numberToString (JNum (int (getHours currentTime))) 16;
          minutes = ''0X'' @ numberToString (JNum (int (getMinutes currentTime))) 16
      in Uint8Array_from
           [N (JNum 0x5a), N (JNum 0x0a), N (JNum opcode),
            S year, S month, S dayNumber, S hour, S minutes,
            N (JNum 0x00),
            S (''0X'' @ numberToString
                 (js_rem
                    (js_add (js_add (js_add (js_add (js_add (js_add (js_add (js_add
                       (parseInt ''5a'' (Some 16))
                       (parseInt ''0a'' (Some 16)))
                       (parseInt ''00'' (Some 16)))
                       (parseInt year (Some 16)))
                       (parseInt month (Some 16)))
                       (parseInt dayNumber (Some 16)))
                       (parseInt hour (Some 16)))
                       (parseInt minutes (Some 16)))
                       (JNum 2))
                    256) 16)])"

definition fetchAdditionalGlucometerRecord_payload :: "wallclock \<Rightarrow> byte list" where
  "fetchAdditionalGlucometerRecord_payload currentTime = glucometer_payload 0x03 currentTime"

definition setGlucometerTime_payload :: "wallclock \<Rightarrow> byte list" where
  "setGlucometerTime_payload currentTime = glucometer_payload 0x00 currentTime"

section \<open>The manager: transactions, promises and subscriptions\<close>

type_synonym TransactionId = string
type_synonym listener = nat
type_synonym NativeCharacteristic = string

text \<open>
  \<open>BleError.js\<close> is not among the sources: the class \<open>BleError\<close>, its property
  \<open>message\<close> and the function \<open>parseBleError\<close> are parameters of the model (with the
  manager's \<open>_errorCodesToMessagesMapping\<close> already applied), over any type \<open>'e\<close> of
  error objects. \<open>BleError_new c\<close> is \<open>new BleError({errorCode: c, attErrorCode: null,
  iosErrorCode: null, androidErrorCode: null, reason: null}, mapping)\<close>.
\<close>

datatype BleErrorCode = BluetoothManagerDestroyed | OtherErrorCode nat

record 'e BleError_js =
  BleError_new :: "BleErrorCode \<Rightarrow> 'e"
  message :: "'e \<Rightarrow> string"
  parseBleError :: "string \<Rightarrow> 'e"

text \<open>The calls into the native module \<open>BleModule\<close> that the modelled functions make.\<close>

datatype native_call =
    DestroyClient
  | CancelTransaction TransactionId
  | MonitorCharacteristicForDevice string string string TransactionId
  | WriteCharacteristicForDevice string string string string bool TransactionId

text \<open>
  The three kinds of subscription object: what \<open>_eventEmitter.addListener\<close> returns (a
  handle of the emitter), a \<open>wrappedSubscription\<close> (its id in \<open>_activeSubscriptions\<close>
  and the emitter subscription it wraps), and the object \<open>_handleMonitorCharacteristic\<close>
  returns (it holds the transaction id).
\<close>

datatype subscription =
    EmitterSubscription nat
  | WrappedSubscription string nat
  | CancelSubscription TransactionId

text \<open>
  \<open>Promise.race([destroyPromise, promise])\<close> settles once: with the native promise's
  value, with the native promise's error (an \<open>Error\<close> with a message), or with the
  error handed to the reject function stored in \<open>_activePromises\<close>. The promise that
  \<open>_callPromise\<close> returns then fulfils or fails.
\<close>

datatype 'e rejection = NativeRejection string | HookRejection 'e

datatype 'e race = RaceResolved string | RaceRejected "'e rejection"

datatype 'e outcome = Fulfilled string | Failed 'e

type_synonym 'e listener_call = "TransactionId \<times> listener \<times> 'e option \<times> NativeCharacteristic option"

text \<open>
  The state. \<open>activePromises\<close> holds the keys of \<open>_activePromises\<close> (each key stands for
  the reject function of that call's \<open>destroyPromise\<close>), \<open>races\<close> the settled races,
  \<open>outcomes\<close> the settled results of \<open>_callPromise\<close>, \<open>thenHandlers\<close> the handlers that
  \<open>_handleMonitorCharacteristic\<close> attaches to such a result. \<open>readEventListeners\<close> are
  the emitter's listeners for \<open>BleModule.ReadEvent\<close>: the handle, and the transaction
  id and listener that the \<open>monitorListener\<close> closure holds. \<open>listenerCalls\<close> is the log
  of calls of callers' listeners, each with the transaction id of the closure that
  made it.
\<close>

record 'e BleManager =
  uniqueId :: nat
  activePromises :: "string list"
  races :: "(string \<times> 'e race) list"
  outcomes :: "(string \<times> 'e outcome) list"
  thenHandlers :: "(string \<times> subscription \<times> TransactionId \<times> listener) list"
  activeSubscriptions :: "(string \<times> subscription) list"
  scanEventSubscription :: "nat option"
  readEventListeners :: "(nat \<times> TransactionId \<times> listener) list"
  emitterNext :: nat
  nativeCalls :: "native_call list"
  listenerCalls :: "'e listener_call list"

definition nextUniqueID :: "'e BleManager \<Rightarrow> string \<times> 'e BleManager" where
  "nextUniqueID m =
     (numberToString (JNum (int (uniqueId m + 1))) 10, m\<lparr>uniqueId := uniqueId m + 1\<rparr>)"

text \<open>\<open>transactionId || this._nextUniqueID()\<close>: an absent or empty id is replaced.\<close>

definition fillTransactionId :: "TransactionId option \<Rightarrow> 'e BleManager \<Rightarrow> TransactionId \<times> 'e BleManager" where
  "fillTransactionId transactionId m =
     (case transactionId of
        None \<Rightarrow> nextUniqueID m
      | Some t \<Rightarrow> if t = [] then nextUniqueID m else (t, m))"

definition emitter_remove :: "nat \<Rightarrow> 'e BleManager \<Rightarrow> 'e BleManager" where
  "emitter_remove h m = m\<lparr>readEventListeners := filter (\<lambda>(h', _). h' \<noteq> h) (readEventListeners m)\<rparr>"

text \<open>\<open>subscription.remove()\<close> for each kind of subscription object.\<close>

fun subscription_remove :: "subscription \<Rightarrow> 'e BleManager \<Rightarrow> 'e BleManager" where
  "subscription_remove (EmitterSubscription h) m = emitter_remove h m"
| "subscription_remove (WrappedSubscription sid h) m =
     (if map_of (activeSubscriptions m) sid \<noteq> None
      then emitter_remove h (m\<lparr>activeSubscriptions := AList.delete sid (activeSubscriptions m)\<rparr>)
      else m)"
| "subscription_remove (CancelSubscription transactionId) m =
     m\<lparr>nativeCalls := nativeCalls m @ [CancelTransaction transactionId]\<rparr>"

text \<open>
  \<open>_callPromise(promise)\<close> up to its \<open>await\<close>: a fresh id, and the reject function
  stored under it. A new key comes last in \<open>_activePromises\<close>, so that the list is in
  the order in which \<open>for (const id in this._activePromises)\<close> visits the keys. The
  native promise is the caller's: its call is already made.
\<close>

definition callPromise_start :: "'e BleManager \<Rightarrow> string \<times> 'e BleManager" where
  "callPromise_start m =
     (let (pid, m1) = nextUniqueID m
      in (pid, m1\<lparr>activePromises := (if pid \<in> set (activePromises m1)
                                       then activePromises m1
                                       else activePromises m1 @ [pid])\<rparr>))"

text \<open>The three ways the race of call \<open>pid\<close> settles; a settled race stays as it is.\<close>

definition settle_race :: "string \<Rightarrow> 'e race \<Rightarrow> 'e BleManager \<Rightarrow> 'e BleManager" where
  "settle_race pid r m =
     (if map_of (races m) pid = None then m\<lparr>races := races m @ [(pid, r)]\<rparr> else m)"

definition native_resolve :: "string \<Rightarrow> string \<Rightarrow> 'e BleManager \<Rightarrow> 'e BleManager" where
  "native_resolve pid v m = settle_race pid (RaceResolved v) m"

definition native_reject :: "string \<Rightarrow> string \<Rightarrow> 'e BleManager \<Rightarrow> 'e BleManager" where
  "native_reject pid msg m = settle_race pid (RaceRejected (NativeRejection msg)) m"

definition reject_hook :: "string \<Rightarrow> 'e \<Rightarrow> 'e BleManager \<Rightarrow> 'e BleManager" where
  "reject_hook pid e m = settle_race pid (RaceRejected (HookRejection e)) m"

text \<open>\<open>error.message\<close> of what the race rejected with.\<close>

definition rejection_message :: "'e BleError_js \<Rightarrow> 'e rejection \<Rightarrow> string" where
  "rejection_message E r = (case r of NativeRejection msg \<Rightarrow> msg | HookRejection e \<Rightarrow> message E e)"

text \<open>
  The handlers \<open>_handleMonitorCharacteristic\<close> attaches with \<open>then\<close>: on success the
  wrapped subscription is removed; on failure the listener is called with the error
  first.
\<close>

definition run_thenHandler :: "string \<Rightarrow> 'e outcome \<Rightarrow> 'e BleManager \<Rightarrow> 'e BleManager" where
  "run_thenHandler pid res m =
     (case map_of (thenHandlers m) pid of
        None \<Rightarrow> m
      | Some (wrappedSubscription, transactionId, listener) \<Rightarrow>
          (case res of
             Fulfilled _ \<Rightarrow> subscription_remove wrappedSubscription m
           | Failed error \<Rightarrow>
               subscription_remove wrappedSubscription
                 (m\<lparr>listenerCalls := listenerCalls m @ [(transactionId, listener, Some error, None)]\<rparr>)))"

text \<open>
  \<open>_callPromise\<close> after its \<open>await\<close>, run once the race has settled: the key is deleted
  from \<open>_activePromises\<close>; the value is returned, or \<open>parseBleError(error.message,
  ...)\<close> is thrown, whatever the race rejected with.
\<close>

definition callPromise_resume :: "'e BleError_js \<Rightarrow> string \<Rightarrow> 'e BleManager \<Rightarrow> 'e BleManager" where
  "callPromise_resume E pid m =
     (if map_of (outcomes m) pid \<noteq> None then m
      else case map_of (races m) pid of
        None \<Rightarrow> m
      | Some r \<Rightarrow>
          (let res = (case r of
                        RaceResolved v \<Rightarrow> Fulfilled v
                      | RaceRejected error \<Rightarrow> Failed (parseBleError E (rejection_message E error)));
               m1 = m\<lparr>activePromises := removeAll pid (activePromises m),
                       outcomes := outcomes m @ [(pid, res)]\<rparr>
           in run_thenHandler pid res m1))"

text \<open>\<open>_destroySubscriptions\<close>, \<open>_destroyPromises\<close> and \<open>destroy\<close>.\<close>

definition destroySubscriptions :: "'e BleManager \<Rightarrow> 'e BleManager" where
  "destroySubscriptions m =
     fold (\<lambda>sid m'. case map_of (activeSubscriptions m') sid of
                       None \<Rightarrow> m'
                     | Some s \<Rightarrow> subscription_remove s m')
          (map fst (activeSubscriptions m)) m"

definition destroyPromises :: "'e BleError_js \<Rightarrow> 'e BleManager \<Rightarrow> 'e BleManager" where
  "destroyPromises E m =
     (let destroyedError = BleError_new E BluetoothManagerDestroyed
      in fold (\<lambda>pid m'. reject_hook pid destroyedError m') (activePromises m) m)"

definition destroy :: "'e BleError_js \<Rightarrow> 'e BleManager \<Rightarrow> 'e BleManager" where
  "destroy E m =
     (let m1 = m\<lparr>nativeCalls := nativeCalls m @ [DestroyClient]\<rparr>;
          m2 = (case scanEventSubscription m1 of
                  None \<Rightarrow> m1
                | Some h \<Rightarrow> (emitter_remove h m1)\<lparr>scanEventSubscription := None\<rparr>);
          m3 = destroySubscriptions m2
      in destroyPromises E m3)"

text \<open>The continuations that run after \<open>destroy\<close> returns: every call resumes.\<close>

definition resume_all :: "'e BleError_js \<Rightarrow> 'e BleManager \<Rightarrow> 'e BleManager" where
  "resume_all E m = fold (callPromise_resume E) (map fst (races m)) m"

text \<open>
  \<open>monitorListener\<close>, the closure \<open>_handleMonitorCharacteristic\<close> registers for
  \<open>BleModule.ReadEvent\<close>, applied to an event \<open>[error, characteristic,
  msgTransactionId]\<close>; \<open>error\<close> counts when it is a non-empty string.
\<close>

definition monitorListener ::
  "'e BleError_js \<Rightarrow> TransactionId \<Rightarrow> listener \<Rightarrow> string option \<times> NativeCharacteristic \<times> TransactionId
     \<Rightarrow> 'e listener_call list \<Rightarrow> 'e listener_call list" where
  "monitorListener E transactionId listener ev calls =
     (case ev of (error, characteristic, msgTransactionId) \<Rightarrow>
        if transactionId \<noteq> msgTransactionId then calls
        else (case error of
                Some e \<Rightarrow>
                  if e \<noteq> [] then calls @ [(transactionId, listener, Some (parseBleError E e), None)]
                  else calls @ [(transactionId, listener, None, Some characteristic)]
              | None \<Rightarrow> calls @ [(transactionId, listener, None, Some characteristic)]))"

text \<open>The emitter delivers a \<open>ReadEvent\<close> to every listener registered for it.\<close>

definition emitReadEvent ::
  "'e BleError_js \<Rightarrow> string option \<times> NativeCharacteristic \<times> TransactionId \<Rightarrow> 'e BleManager \<Rightarrow> 'e BleManager" where
  "emitReadEvent E ev m =
     m\<lparr>listenerCalls :=
         fold (\<lambda>(h, transactionId, listener) calls. monitorListener E transactionId listener ev calls)
              (readEventListeners m) (listenerCalls m)\<rparr>"

text \<open>
  \<open>_handleMonitorCharacteristic(monitorPromise, transactionId, listener)\<close>: the listener
  is added to the emitter, the wrapped subscription is stored under a fresh id,
  \<open>_callPromise(monitorPromise)\<close> starts with its two handlers, and the object returned
  is the one whose \<open>remove\<close> calls \<open>BleModule.cancelTransaction(transactionId)\<close>.
\<close>

definition handleMonitorCharacteristic ::
  "TransactionId \<Rightarrow> listener \<Rightarrow> 'e BleManager \<Rightarrow> subscription \<times> 'e BleManager" where
  "handleMonitorCharacteristic transactionId listener m =
     (let h = emitterNext m;
          m1 = m\<lparr>readEventListeners := readEventListeners m @ [(h, transactionId, listener)],
                  emitterNext := h + 1\<rparr>;
          (sid, m2) = nextUniqueID m1;
          wrappedSubscription = WrappedSubscription sid h;
          m3 = m2\<lparr>activeSubscriptions := AList.update sid wrappedSubscription (activeSubscriptions m2)\<rparr>;
          (pid, m4) = callPromise_start m3;
          m5 = m4\<lparr>thenHandlers := AList.update pid (wrappedSubscription, transactionId, listener) (thenHandlers m4)\<rparr>
      in (CancelSubscription transactionId, m5))"

text \<open>
  \<open>monitorCharacteristicForDevice\<close>; the wrappers for the device families
  (\<open>monitorScaleResponse\<close>, \<open>monitorTrackerResponse\<close>, ...) are this function with
  fixed UUIDs.
\<close>

definition monitorCharacteristicForDevice ::
  "string \<Rightarrow> string \<Rightarrow> string \<Rightarrow> listener \<Rightarrow> TransactionId option \<Rightarrow> 'e BleManager
     \<Rightarrow> subscription \<times> 'e BleManager" where
  "monitorCharacteristicForDevice deviceIdentifier serviceUUID characteristicUUID listener transactionId m =
     (let (filledTransactionId, m1) = fillTransactionId transactionId m;
          m2 = m1\<lparr>nativeCalls := nativeCalls m1 @
                  [MonitorCharacteristicForDevice deviceIdentifier serviceUUID characteristicUUID filledTransactionId]\<rparr>
      in handleMonitorCharacteristic filledTransactionId listener m2)"

text \<open>A manager as the constructor leaves it (without a restore-state function).\<close>

definition new_BleManager :: "'e BleManager" where
  "new_BleManager =
     \<lparr>uniqueId = 0, activePromises = [], races = [], outcomes = [], thenHandlers = [],
      activeSubscriptions = [], scanEventSubscription = None, readEventListeners = [],
      emitterNext = 0, nativeCalls = [], listenerCalls = []\<rparr>"

text \<open>
  A call of \<open>_callPromise\<close> is pending when its reject function is still stored and
  neither the race nor the call has settled. \<open>promise_result\<close> is what the call gives
  for a settled race.
\<close>

definition pending :: "'e BleManager \<Rightarrow> string \<Rightarrow> bool" where
  "pending m pid = (pid \<in> set (activePromises m) \<and> map_of (races m) pid = None
                     \<and> map_of (outcomes m) pid = None)"

definition promise_result :: "'e BleError_js \<Rightarrow> 'e race \<Rightarrow> 'e outcome" where
  "promise_result E r =
     (case r of
        RaceResolved v \<Rightarrow> Fulfilled v
      | RaceRejected error \<Rightarrow> Failed (parseBleError E (rejection_message E error)))"

section \<open>selectProfileAlternativeScale\<close>

definition scaleServiceUUID :: string where
  "scaleServiceUUID = ''0000fff0-0000-1000-8000-00805f9b34fb''"

definition alternativeScaleWriteCharacteristic :: string where
  "alternativeScaleWriteCharacteristic = ''0000fff2-0000-1000-8000-00805f9b34fb''"

text \<open>
  A \<open>const\<close> binding exists from the start of its block and is uninitialized until its
  initializer has been evaluated; reading it before that throws a \<open>ReferenceError\<close>.
  An \<open>async\<close> function that throws returns a rejected promise.
\<close>

datatype js_error = ReferenceError string

datatype 'a binding = Uninitialized | Initialized 'a

definition readBinding :: "string \<Rightarrow> 'a binding \<Rightarrow> js_error + 'a" where
  "readBinding name b = (case b of Uninitialized \<Rightarrow> Inl (ReferenceError name) | Initialized v \<Rightarrow> Inr v)"

text \<open>
  \<open>selectProfileAlternativeScale(deviceIdentifier, user, transactionId)\<close>. The
  initializer of \<open>measurementUnit\<close> reads \<open>measurementUnit\<close> itself, while the binding
  is uninitialized. The result is the error thrown, or the id of the \<open>_callPromise\<close>
  call whose result the function returns.
\<close>

definition selectProfileAlternativeScale ::
  "string \<Rightarrow> string \<Rightarrow> TransactionId option \<Rightarrow> 'e BleManager \<Rightarrow> (js_error + string) \<times> 'e BleManager" where
  "selectProfileAlternativeScale deviceIdentifier user transactionId m =
     (let (transactionId, m1) = fillTransactionId transactionId m
      in case readBinding ''measurementUnit'' (Uninitialized :: jsval binding) of
           Inl err \<Rightarrow> (Inl err, m1)
         | Inr v \<Rightarrow>
             (let measurementUnit = (if v = S ''metric'' then (0::int) else 1);
                  uint16 = Uint8Array_new 13;
                  uint16 = store8 uint16 0 (JNum 0x41);
                  uint16 = store8 uint16 1 (JNum 0x00);
                  uint16 = store8 uint16 2 (JNum 0x82);
                  uint16 = store8 uint16 3 (parseInt (slice user 0 2) (Some 16));
                  uint16 = store8 uint16 4 (parseInt (slice user 2 4) (Some 16));
                  uint16 = store8 uint16 5 (parseInt (slice user 4 6) (Some 16));
                  uint16 = store8 uint16 6 (parseInt (slice user 6 8) (Some 16));
                  value = base64ArrayBuffer uint16;
                  m2 = m1\<lparr>nativeCalls := nativeCalls m1 @
                          [WriteCharacteristicForDevice deviceIdentifier scaleServiceUUID
                             alternativeScaleWriteCharacteristic value False transactionId]\<rparr>;
                  (pid, m3) = callPromise_start m2
              in (Inr pid, m3)))"

section \<open>The encoder's output, group by group\<close>

text \<open>
  The same output described over the list of bytes: four characters for each three
  bytes, and the padded group for one or two bytes left. The loop is shown below to
  compute exactly this.
\<close>

definition chunk3 :: "byte \<Rightarrow> byte \<Rightarrow> byte \<Rightarrow> 32 word" where
  "chunk3 x y z = push_bit 16 (ucast x) OR push_bit 8 (ucast y) OR ucast z"

definition chunk2 :: "byte \<Rightarrow> byte \<Rightarrow> 32 word" where
  "chunk2 x y = push_bit 8 (ucast x) OR ucast y"

definition group3 :: "byte \<Rightarrow> byte \<Rightarrow> byte \<Rightarrow> string" where
  "group3 x y z =
     [enc (signed_drop_bit 18 (chunk3 x y z AND 16515072)),
      enc (signed_drop_bit 12 (chunk3 x y z AND 258048)),
      enc (signed_drop_bit 6 (chunk3 x y z AND 4032)),
      enc (chunk3 x y z AND 63)]"

definition group2 :: "byte \<Rightarrow> byte \<Rightarrow> string" where
  "group2 x y =
     [enc (signed_drop_bit 10 (chunk2 x y AND 64512)),
      enc (signed_drop_bit 4 (chunk2 x y AND 1008)),
      enc (push_bit 2 (chunk2 x y AND 15)),
      CHR ''='']"

definition group1 :: "byte \<Rightarrow> string" where
  "group1 x =
     [enc (signed_drop_bit 2 (ucast x AND 252)),
      enc (push_bit 4 (ucast x AND 3)),
      CHR ''='', CHR ''='']"

fun main_groups :: "byte list \<Rightarrow> string" where
  "main_groups (x # y # z # rest) = group3 x y z @ main_groups rest"
| "main_groups _ = []"

fun encode_groups :: "byte list \<Rightarrow> string" where
  "encode_groups (x # y # z # rest) = group3 x y z @ encode_groups rest"
| "encode_groups [x, y] = group2 x y"
| "encode_groups [x] = group1 x"
| "encode_groups [] = []"

text \<open>The number of padding characters for a buffer of \<open>n\<close> bytes.\<close>

definition padding :: "nat \<Rightarrow> nat" where
  "padding n = (if n mod 3 = 1 then 2 else if n mod 3 = 2 then 1 else 0)"

section \<open>Properties of the base64 encoder\<close>

lemma mask_consts:
  "(16515072 :: 32 word) = push_bit 18 (mask 6)"
  "(258048 :: 32 word) = push_bit 12 (mask 6)"
  "(4032 :: 32 word) = push_bit 6 (mask 6)"
  "(63 :: 32 word) = mask 6"
  "(255 :: 32 word) = mask 8"
  "(252 :: 32 word) = push_bit 2 (mask 6)"
  "(3 :: 32 word) = mask 2"
  "(64512 :: 32 word) = push_bit 10 (mask 6)"
  "(1008 :: 32 word) = push_bit 4 (mask 6)"
  "(15 :: 32 word) = mask 4"
  by (simp_all add: mask_eq_exp_minus_1)

lemma Suc_Suc_diff2: "2 \<le> n \<Longrightarrow> Suc (Suc (n - 2)) = n"
  by simp

lemma sextet_bound: "w AND mask 6 = w \<Longrightarrow> unat (w :: 32 word) < 64"
proof -
  assume "w AND mask 6 = w"
  then have "w = w AND mask 6" by simp
  also have "unat (w AND mask 6) < 2 ^ 6"
    using and_mask_less' [of 6 w] by (simp add: word_less_nat_alt)
  finally show ?thesis by simp
qed

text \<open>Each index the encoder computes is a 6-bit number.\<close>

lemma seg3_bounds:
  "unat (signed_drop_bit 18 (chunk3 x y z AND 16515072)) < 64"
  "unat (signed_drop_bit 12 (chunk3 x y z AND 258048)) < 64"
  "unat (signed_drop_bit 6 (chunk3 x y z AND 4032)) < 64"
  "unat (chunk3 x y z AND 63) < 64"
  unfolding mask_consts
  by (rule sextet_bound, rule bit_word_eqI, auto simp add: bit_simps chunk3_def)+

lemma seg2_bounds:
  "unat (signed_drop_bit 10 (chunk2 x y AND 64512)) < 64"
  "unat (signed_drop_bit 4 (chunk2 x y AND 1008)) < 64"
  "unat (push_bit 2 (chunk2 x y AND 15)) < 64"
  unfolding mask_consts
  by (rule sextet_bound, rule bit_word_eqI, auto simp add: bit_simps chunk2_def)+

lemma seg1_bounds:
  "unat (signed_drop_bit 2 ((ucast (x :: byte) :: 32 word) AND 252)) < 64"
  "unat (push_bit 4 ((ucast (x :: byte) :: 32 word) AND 3)) < 64"
  unfolding mask_consts
  by (rule sextet_bound, rule bit_word_eqI, auto simp add: bit_simps)+


text \<open>The decoder's word, rebuilt from the four indices, gives the bytes back.\<close>

lemma decode3:
  fixes x y z :: byte
  defines "n \<equiv> push_bit 18 (signed_drop_bit 18 (chunk3 x y z AND 16515072))
                 OR push_bit 12 (signed_drop_bit 12 (chunk3 x y z AND 258048))
                 OR push_bit 6 (signed_drop_bit 6 (chunk3 x y z AND 4032))
                 OR (chunk3 x y z AND 63)"
  shows "decode_byte n 16 = x" and "decode_byte n 8 = y" and "decode_byte n 0 = z"
  unfolding n_def decode_byte_def mask_consts
  by (rule bit_word_eqI, auto simp add: bit_simps chunk3_def Suc_Suc_diff2 dest: bit_imp_le_length)+

lemma decode2:
  fixes x y :: byte
  defines "n \<equiv> push_bit 18 (signed_drop_bit 10 (chunk2 x y AND 64512))
                 OR push_bit 12 (signed_drop_bit 4 (chunk2 x y AND 1008))
                 OR push_bit 6 (push_bit 2 (chunk2 x y AND 15))"
  shows "decode_byte n 16 = x" and "decode_byte n 8 = y"
  unfolding n_def decode_byte_def mask_consts
  by (rule bit_word_eqI, auto simp add: bit_simps chunk2_def Suc_Suc_diff2 dest: bit_imp_le_length)+

lemma decode1:
  fixes x :: byte
  defines "n \<equiv> push_bit 18 (signed_drop_bit 2 ((ucast x :: 32 word) AND 252))
                 OR push_bit 12 (push_bit 4 ((ucast x :: 32 word) AND 3))"
  shows "decode_byte n 16 = x"
  unfolding n_def decode_byte_def mask_consts
  by (rule bit_word_eqI, auto simp add: bit_simps Suc_Suc_diff2 dest: bit_imp_le_length)


subsection \<open>The alphabet\<close>

lemma distinct_encodings: "distinct encodings"
  by (simp add: encodings_def)

lemma length_encodings: "length encodings = 64"
  by (simp add: encodings_def)

lemma pad_not_in_encodings: "CHR ''='' \<notin> set encodings"
  by (simp add: encodings_def)

lemma index_of_nth: "distinct xs \<Longrightarrow> n < length xs \<Longrightarrow> index_of (xs ! n) xs = Some n"
proof (induction xs arbitrary: n)
  case Nil
  then show ?case by simp
next
  case (Cons a xs)
  then show ?case by (cases n) auto
qed

lemma sextet_enc: "unat a < 64 \<Longrightarrow> sextet (enc a) = Some a"
  by (simp add: sextet_def enc_def index_of_nth distinct_encodings length_encodings)

lemma enc_not_pad: "unat a < 64 \<Longrightarrow> enc a \<noteq> CHR ''=''"
proof -
  assume "unat a < 64"
  then have "encodings ! unat a \<in> set encodings"
    by (simp add: length_encodings)
  with pad_not_in_encodings show ?thesis
    by (auto simp: enc_def)
qed

subsection \<open>Decoding one group\<close>

lemma decode_group3:
  "base64_decode (group3 x y z @ s) = map_option (\<lambda>bs. x # y # z # bs) (base64_decode s)"
proof -
  define a where "a = signed_drop_bit 18 (chunk3 x y z AND 16515072)"
  define b where "b = signed_drop_bit 12 (chunk3 x y z AND 258048)"
  define c where "c = signed_drop_bit 6 (chunk3 x y z AND 4032)"
  define d where "d = chunk3 x y z AND 63"
  have bounds: "unat a < 64" "unat b < 64" "unat c < 64" "unat d < 64"
    unfolding a_def b_def c_def d_def by (rule seg3_bounds)+
  have bytes:
    "decode_byte (push_bit 18 a OR push_bit 12 b OR push_bit 6 c OR d) 16 = x"
    "decode_byte (push_bit 18 a OR push_bit 12 b OR push_bit 6 c OR d) 8 = y"
    "decode_byte (push_bit 18 a OR push_bit 12 b OR push_bit 6 c OR d) 0 = z"
    unfolding a_def b_def c_def d_def by (rule decode3)+
  have "group3 x y z = [enc a, enc b, enc c, enc d]"
    by (simp only: group3_def a_def b_def c_def d_def)
  then show ?thesis
    using bounds bytes by (simp add: sextet_enc enc_not_pad Let_def)
qed

lemma decode_group2: "base64_decode (group2 x y) = Some [x, y]"
proof -
  define a where "a = signed_drop_bit 10 (chunk2 x y AND 64512)"
  define b where "b = signed_drop_bit 4 (chunk2 x y AND 1008)"
  define c where "c = push_bit 2 (chunk2 x y AND 15)"
  have bounds: "unat a < 64" "unat b < 64" "unat c < 64"
    unfolding a_def b_def c_def by (rule seg2_bounds)+
  have bytes:
    "decode_byte (push_bit 18 a OR push_bit 12 b OR push_bit 6 c) 16 = x"
    "decode_byte (push_bit 18 a OR push_bit 12 b OR push_bit 6 c) 8 = y"
    unfolding a_def b_def c_def by (rule decode2)+
  have "group2 x y = [enc a, enc b, enc c, CHR ''='']"
    by (simp only: group2_def a_def b_def c_def)
  then show ?thesis
    using bounds bytes by (simp add: sextet_enc enc_not_pad Let_def)
qed

lemma decode_group1: "base64_decode (group1 x) = Some [x]"
proof -
  define a where "a = signed_drop_bit 2 ((ucast x :: 32 word) AND 252)"
  define b where "b = push_bit 4 ((ucast x :: 32 word) AND 3)"
  have bounds: "unat a < 64" "unat b < 64"
    unfolding a_def b_def by (rule seg1_bounds)+
  have bytes: "decode_byte (push_bit 18 a OR push_bit 12 b) 16 = x"
    unfolding a_def b_def by (rule decode1)
  have "group1 x = [enc a, enc b, CHR ''='', CHR ''='']"
    by (simp only: group1_def a_def b_def)
  then show ?thesis
    using bounds bytes by (simp add: sextet_enc enc_not_pad Let_def)
qed

lemma decode_encode_groups: "base64_decode (encode_groups bs) = Some bs"
  by (induction bs rule: encode_groups.induct)
     (simp_all add: decode_group3 decode_group2 decode_group1)


subsection \<open>The loop computes the groups\<close>

declare base64_main_loop.simps [simp del]

lemma main_loop_step:
  "i < mainLength \<Longrightarrow>
   base64_main_loop bytes mainLength i acc =
   base64_main_loop bytes mainLength (i + 3)
     (acc @ group3 (bytes ! i) (bytes ! (i + 1)) (bytes ! (i + 2)))"
  by (subst base64_main_loop.simps) (simp add: group3_def chunk3_def Let_def)

lemma main_loop_done: "\<not> i < mainLength \<Longrightarrow> base64_main_loop bytes mainLength i acc = acc"
  by (subst base64_main_loop.simps) simp

lemma drop_three:
  "i + 3 \<le> length xs \<Longrightarrow> drop i xs = xs ! i # xs ! (i + 1) # xs ! (i + 2) # drop (i + 3) xs"
  by (simp add: Cons_nth_drop_Suc [symmetric] numeral_3_eq_3)

lemma main_loop_groups:
  "i + 3 * k = mainLength \<Longrightarrow> mainLength \<le> length bytes \<Longrightarrow>
   base64_main_loop bytes mainLength i acc = acc @ main_groups (take (3 * k) (drop i bytes))"
proof (induction k arbitrary: i acc)
  case 0
  then show ?case by (simp add: main_loop_done)
next
  case (Suc k)
  from Suc.prems have lt: "i < mainLength" and le: "i + 3 \<le> length bytes" by simp_all
  from Suc.prems have next_ok: "(i + 3) + 3 * k = mainLength" by simp
  have "take (3 * Suc k) (drop i bytes) =
        bytes ! i # bytes ! (i + 1) # bytes ! (i + 2) # take (3 * k) (drop (i + 3) bytes)"
    by (subst drop_three [OF le]) (simp add: numeral_3_eq_3)
  then show ?case
    using Suc.IH [OF next_ok Suc.prems(2)] by (simp add: main_loop_step [OF lt])
qed

lemma encode_groups_split:
  "3 * k \<le> length bs \<Longrightarrow>
   encode_groups bs = main_groups (take (3 * k) bs) @ encode_groups (drop (3 * k) bs)"
proof (induction k arbitrary: bs)
  case 0
  then show ?case by simp
next
  case (Suc k)
  then obtain x y z rest where bs: "bs = x # y # z # rest"
    by (cases bs rule: encode_groups.cases) auto
  with Suc.prems have "3 * k \<le> length rest" by simp
  from Suc.IH [OF this] show ?case by (simp add: bs numeral_3_eq_3)
qed

lemma base64ArrayBuffer_groups: "base64ArrayBuffer bytes = encode_groups bytes"
proof -
  define k where "k = length bytes div 3"
  define r where "r = length bytes mod 3"
  have len: "length bytes = 3 * k + r" and r: "r < 3"
    by (simp_all add: k_def r_def)
  have main: "length bytes - r = 3 * k" using len by simp
  have le: "3 * k \<le> length bytes" using len by simp
  have loop: "base64_main_loop bytes (3 * k) 0 [] = main_groups (take (3 * k) bytes)"
    using main_loop_groups [of 0 k "3 * k" bytes "[]"] le by simp
  have split: "encode_groups bytes = main_groups (take (3 * k) bytes) @ encode_groups (drop (3 * k) bytes)"
    by (rule encode_groups_split [OF le])
  have rest_len: "length (drop (3 * k) bytes) = r" using len by simp
  consider "r = 0" | "r = 1" | "r = 2" using r by linarith
  then show ?thesis
  proof cases
    case 1
    with rest_len have "drop (3 * k) bytes = []" by simp
    with 1 show ?thesis
      using loop split main by (simp add: base64ArrayBuffer_def r_def [symmetric] Let_def)
  next
    case 2
    with rest_len obtain x where d: "drop (3 * k) bytes = [x]"
      by (cases "drop (3 * k) bytes") auto
    then have "bytes ! (3 * k) = x"
      by (rule nth_via_drop)
    with 2 d show ?thesis
      using loop split main by (simp add: base64ArrayBuffer_def r_def [symmetric] Let_def group1_def)
  next
    case 3
    with rest_len obtain x y where d: "drop (3 * k) bytes = [x, y]"
      by (cases "drop (3 * k) bytes" rule: encode_groups.cases) auto
    then have x: "bytes ! (3 * k) = x"
      by (rule nth_via_drop)
    have "drop (Suc (3 * k)) bytes = tl (drop (3 * k) bytes)"
      by (simp add: drop_Suc tl_drop)
    with d have "drop (3 * k + 1) bytes = [y]" by simp
    then have "bytes ! (3 * k + 1) = y"
      by (rule nth_via_drop)
    with 3 d x show ?thesis
      using loop split main by (simp add: base64ArrayBuffer_def r_def [symmetric] Let_def group2_def chunk2_def)
  qed
qed


subsection \<open>Padding\<close>

lemma pad_not_in_group3: "CHR ''='' \<notin> set (group3 x y z)"
  using seg3_bounds [of x y z] by (auto simp only: group3_def list.set insert_iff empty_iff dest: enc_not_pad)

lemma padding_add3: "padding (Suc (Suc (Suc n))) = padding n"
  by (simp add: padding_def mod_Suc)

lemma encode_groups_padding:
  "\<exists>body. encode_groups bs = body @ replicate (padding (length bs)) (CHR ''='') \<and> CHR ''='' \<notin> set body"
proof (induction bs rule: encode_groups.induct)
  case (1 x y z rest)
  then obtain body where body: "encode_groups rest = body @ replicate (padding (length rest)) (CHR ''='')"
    and clean: "CHR ''='' \<notin> set body" by blast
  have "encode_groups (x # y # z # rest) = (group3 x y z @ body) @ replicate (padding (length (x # y # z # rest))) (CHR ''='')"
    by (simp add: body padding_add3)
  moreover have "CHR ''='' \<notin> set (group3 x y z @ body)"
    using clean pad_not_in_group3 by simp
  ultimately show ?case by blast
next
  case (2 x y)
  define a where "a = signed_drop_bit 10 (chunk2 x y AND 64512)"
  define b where "b = signed_drop_bit 4 (chunk2 x y AND 1008)"
  define c where "c = push_bit 2 (chunk2 x y AND 15)"
  have bounds: "unat a < 64" "unat b < 64" "unat c < 64"
    unfolding a_def b_def c_def by (rule seg2_bounds)+
  have "group2 x y = [enc a, enc b, enc c] @ replicate 1 (CHR ''='')"
    by (simp add: group2_def a_def b_def c_def)
  moreover have "CHR ''='' \<notin> set [enc a, enc b, enc c]"
    using bounds by (auto dest: enc_not_pad)
  ultimately show ?case by (auto simp add: padding_def simp del: replicate.simps)
next
  case (3 x)
  define a where "a = signed_drop_bit 2 ((ucast x :: 32 word) AND 252)"
  define b where "b = push_bit 4 ((ucast x :: 32 word) AND 3)"
  have bounds: "unat a < 64" "unat b < 64"
    unfolding a_def b_def by (rule seg1_bounds)+
  have "group1 x = [enc a, enc b] @ replicate 2 (CHR ''='')"
    by (simp add: group1_def a_def b_def numeral_2_eq_2)
  moreover have "CHR ''='' \<notin> set [enc a, enc b]"
    using bounds by (auto dest: enc_not_pad)
  ultimately show ?case by (auto simp add: padding_def simp del: replicate.simps)
next
  case 4
  show ?case by (simp add: padding_def)
qed

lemma base64ArrayBuffer_padding:
  "drop (length (base64ArrayBuffer b) - padding (length b)) (base64ArrayBuffer b)
     = replicate (padding (length b)) (CHR ''='')"
  "CHR ''='' \<notin> set (take (length (base64ArrayBuffer b) - padding (length b)) (base64ArrayBuffer b))"
proof -
  obtain body where s: "base64ArrayBuffer b = body @ replicate (padding (length b)) (CHR ''='')"
    and clean: "CHR ''='' \<notin> set body"
    using encode_groups_padding [of b] by (auto simp: base64ArrayBuffer_groups)
  show "drop (length (base64ArrayBuffer b) - padding (length b)) (base64ArrayBuffer b)
     = replicate (padding (length b)) (CHR ''='')"
    by (simp add: s)
  show "CHR ''='' \<notin> set (take (length (base64ArrayBuffer b) - padding (length b)) (base64ArrayBuffer b))"
    using clean by (simp add: s)
qed

text \<open>
  Claim C5. For every byte buffer \<open>b\<close>, the standard decoder applied to
  \<open>base64ArrayBuffer b\<close> returns \<open>b\<close>. The encoded string ends with exactly
  \<open>padding (length b)\<close> characters \<open>=\<close>, and no \<open>=\<close> stands before them: two when the
  length modulo 3 is 1, one when it is 2, none when it is 0.
\<close>

theorem base64_round_trip:
  "base64_decode (base64ArrayBuffer b) = Some b
   \<and> drop (length (base64ArrayBuffer b) - padding (length b)) (base64ArrayBuffer b)
       = replicate (padding (length b)) (CHR ''='')
   \<and> CHR ''='' \<notin> set (take (length (base64ArrayBuffer b) - padding (length b)) (base64ArrayBuffer b))"
  using base64ArrayBuffer_padding [of b]
  by (simp add: base64ArrayBuffer_groups decode_encode_groups)

section \<open>Numbers printed and read back\<close>

declare natToString.simps [simp del]

lemma digit_table:
  "list_all (\<lambda>d. digitValue (digitChar d) = Some d \<and> \<not> isWhiteSpace (digitChar d)
      \<and> digitChar d \<noteq> CHR ''-'' \<and> digitChar d \<noteq> CHR ''+'') [0..<36]"
  by (simp add: upt_rec digitValue_def digitChar_def isWhiteSpace_def Let_def)

lemma digit_facts:
  assumes "d < 36"
  shows "digitValue (digitChar d) = Some d" and "\<not> isWhiteSpace (digitChar d)"
    and "digitChar d \<noteq> CHR ''-''" and "digitChar d \<noteq> CHR ''+''"
  using digit_table assms by (simp_all add: list_all_iff)

lemma natToString_small: "n < r \<Longrightarrow> natToString r n = [digitChar n]"
  by (subst natToString.simps) simp

lemma natToString_large:
  "2 \<le> r \<Longrightarrow> r \<le> n \<Longrightarrow> natToString r n = natToString r (n div r) @ [digitChar (n mod r)]"
  by (subst natToString.simps) simp

lemma natToString_last:
  "2 \<le> r \<Longrightarrow> \<exists>ds. natToString r n = ds @ [digitChar (n mod r)]"
  by (cases "n < r") (simp_all add: natToString_small natToString_large)

lemma natToString_first:
  "2 \<le> r \<Longrightarrow> \<exists>d ds. d < r \<and> natToString r n = digitChar d # ds"
proof (induction r n rule: natToString.induct)
  case (1 r n)
  show ?case
  proof (cases "n < r")
    case True
    then show ?thesis by (auto simp: natToString_small)
  next
    case False
    with 1 obtain d ds where "d < r" "natToString r (n div r) = digitChar d # ds" by auto
    with False 1 show ?thesis by (auto simp: natToString_large)
  qed
qed

lemma parseDigits_digit:
  "d < r \<Longrightarrow> r \<le> 36 \<Longrightarrow>
   parseDigits r (digitChar d # rest) acc
     = parseDigits r rest (Some ((case acc of None \<Rightarrow> 0 | Some a \<Rightarrow> a) * r + d))"
  by (simp add: digit_facts)

lemma parseDigits_natToString:
  "2 \<le> r \<Longrightarrow> r \<le> 36 \<Longrightarrow> (case acc of None \<Rightarrow> 0 | Some a \<Rightarrow> a) = 0 \<Longrightarrow>
   parseDigits r (natToString r n @ rest) acc = parseDigits r rest (Some n)"
proof (induction r n arbitrary: rest rule: natToString.induct)
  case (1 r n)
  show ?case
  proof (cases "n < r")
    case True
    then show ?thesis
      using 1(2-) by (simp add: natToString_small parseDigits_digit del: parseDigits.simps(2))
  next
    case False
    then have "parseDigits r (natToString r (n div r) @ (digitChar (n mod r) # rest)) acc
                 = parseDigits r (digitChar (n mod r) # rest) (Some (n div r))"
      using 1 by simp
    also have "\<dots> = parseDigits r rest (Some (n div r * r + n mod r))"
      using 1(2-) by (simp add: parseDigits_digit del: parseDigits.simps(2))
    finally show ?thesis using False 1(2-) by (simp add: natToString_large)
  qed
qed

lemma allDigits_natToString: "2 \<le> r \<Longrightarrow> r \<le> 36 \<Longrightarrow> allDigits r (natToString r n)"
proof (induction r n rule: natToString.induct)
  case (1 r n)
  show ?case
  proof (cases "n < r")
    case True
    moreover from True 1(3) have "n < 36" by simp
    ultimately show ?thesis
      by (simp add: natToString_small allDigits_def digit_facts)
  next
    case False
    with 1 have "allDigits r (natToString r (n div r))" by simp
    moreover have lt: "n mod r < r" using 1(2) by simp
    moreover from lt 1(3) have "n mod r < 36" by simp
    ultimately show ?thesis
      using False 1(2-) by (simp add: natToString_large allDigits_def digit_facts)
  qed
qed


subsection \<open>Reading back the strings the code prints\<close>

lemma trim_id:
  assumes "s \<noteq> []" "\<not> isWhiteSpace (hd s)" "\<not> isWhiteSpace (last s)"
  shows "rev (dropWhile isWhiteSpace (rev (dropWhile isWhiteSpace s))) = s"
proof -
  from assms(1,2) have a: "dropWhile isWhiteSpace s = s"
    by (cases s) simp_all
  from assms(1,3) have "dropWhile isWhiteSpace (rev s) = rev s"
    by (cases s rule: rev_cases) simp_all
  with a show ?thesis by simp
qed

lemma hasHexPrefixD: "hasHexPrefix s \<Longrightarrow> \<exists>rest. s = ''0x'' @ rest \<or> s = ''0X'' @ rest"
  unfolding hasHexPrefix_def by (metis append_take_drop_id)

lemma parseInt_hex_literal:
  "parseInt (''0X'' @ natToString 16 n) (Some 16) = JNum (int n)"
proof -
  have "parseDigits 16 (natToString 16 n @ []) None = parseDigits 16 [] (Some n)"
    by (rule parseDigits_natToString) simp_all
  then show ?thesis
    by (simp add: parseInt_def isWhiteSpace_def hasHexPrefix_def)
qed

lemma stringToNumber_hex_literal:
  "stringToNumber (''0X'' @ natToString 16 n) = JNum (int n)"
proof -
  obtain ds where ds: "natToString 16 n = ds @ [digitChar (n mod 16)]"
    using natToString_last [of 16 n] by auto
  have "\<not> isWhiteSpace (digitChar (n mod 16))"
    by (rule digit_facts) simp
  then have "\<not> isWhiteSpace (last (''0X'' @ natToString 16 n))"
    by (simp add: ds)
  moreover have "\<not> isWhiteSpace (hd (''0X'' @ natToString 16 n))"
    by (simp add: isWhiteSpace_def)
  ultimately have trim: "rev (dropWhile isWhiteSpace (rev (dropWhile isWhiteSpace (''0X'' @ natToString 16 n))))
                     = ''0X'' @ natToString 16 n"
    by (intro trim_id) simp_all
  have digits: "allDigits 16 (natToString 16 n)"
    by (rule allDigits_natToString) simp_all
  have "parseDigits 16 (natToString 16 n @ []) None = parseDigits 16 [] (Some n)"
    by (rule parseDigits_natToString) simp_all
  then have val: "parseDigits 16 (natToString 16 n) None = Some n" by simp
  show ?thesis
    unfolding stringToNumber_def trim Let_def
    using digits val by (simp add: hasHexPrefix_def)
qed

lemma parseInt_decimal:
  "parseInt (natToString 10 n) None = JNum (int n)"
proof -
  obtain d ds where d: "d < 10" and s: "natToString 10 n = digitChar d # ds"
    using natToString_first [of 10 n] by auto
  from d have d36: "d < 36" by simp
  have nows: "\<not> isWhiteSpace (digitChar d)" and nominus: "digitChar d \<noteq> CHR ''-''" 
    and noplus: "digitChar d \<noteq> CHR ''+''"
    using digit_facts [OF d36] by simp_all
  have digits: "allDigits 10 (natToString 10 n)"
    by (rule allDigits_natToString) simp_all
  have noprefix: "\<not> hasHexPrefix (natToString 10 n)"
  proof
    assume "hasHexPrefix (natToString 10 n)"
    then obtain rest where "natToString 10 n = ''0x'' @ rest \<or> natToString 10 n = ''0X'' @ rest"
      using hasHexPrefixD by blast
    with digits show False
      by (auto simp: allDigits_def digitValue_def)
  qed
  have "parseDigits 10 (natToString 10 n @ []) None = parseDigits 10 [] (Some n)"
    by (rule parseDigits_natToString) simp_all
  then have val: "parseDigits 10 (natToString 10 n) None = Some n" by simp
  have s1: "dropWhile isWhiteSpace (natToString 10 n) = natToString 10 n"
    using nows by (simp add: s)
  have sign: "take 1 (natToString 10 n) \<noteq> ''-''" "take 1 (natToString 10 n) \<noteq> ''+''"
    using nominus noplus by (simp_all add: s)
  show ?thesis
    unfolding parseInt_def s1 Let_def using sign noprefix val by simp
qed


lemma parseInt_two_digits:
  assumes "a < 10" "b < 10"
  shows "parseInt [digitChar a, digitChar b] None = JNum (int (a * 10 + b))"
proof -
  from assms have a36: "a < 36" and b36: "b < 36" by simp_all
  have nows: "\<not> isWhiteSpace (digitChar a)" and nominus: "digitChar a \<noteq> CHR ''-''"
    and noplus: "digitChar a \<noteq> CHR ''+''"
    using digit_facts [OF a36] by simp_all
  have "digitValue (digitChar b) = Some b" by (rule digit_facts [OF b36])
  with assms(2) have "digitChar b \<noteq> CHR ''x''" "digitChar b \<noteq> CHR ''X''"
    by (auto simp: digitValue_def)
  then have noprefix: "\<not> hasHexPrefix [digitChar a, digitChar b]"
    by (simp add: hasHexPrefix_def)
  have val: "parseDigits 10 [digitChar a, digitChar b] None = Some (a * 10 + b)"
    using assms by (simp add: parseDigits_digit del: parseDigits.simps(2))
  show ?thesis
    unfolding parseInt_def Let_def using nows nominus noplus noprefix val by simp
qed

lemma substr_last2_natToString:
  "substr_last2 (natToString 10 y) =
     (if y < 10 then natToString 10 y else [digitChar (y div 10 mod 10), digitChar (y mod 10)])"
proof (cases "y < 10")
  case True
  then show ?thesis by (simp add: natToString_small substr_last2_def)
next
  case False
  obtain ds where "natToString 10 (y div 10) = ds @ [digitChar (y div 10 mod 10)]"
    using natToString_last [of 10 "y div 10"] by auto
  with False have "natToString 10 y = ds @ [digitChar (y div 10 mod 10), digitChar (y mod 10)]"
    by (simp add: natToString_large)
  with False show ?thesis by (simp add: substr_last2_def)
qed

lemma year_field:
  "parseInt (substr_last2 (numberToString (JNum (int y)) 10)) None = JNum (int (y mod 100))"
proof (cases "y < 10")
  case True
  then show ?thesis
    by (simp add: numberToString_def substr_last2_natToString parseInt_decimal)
next
  case False
  have "parseInt [digitChar (y div 10 mod 10), digitChar (y mod 10)] None
          = JNum (int (y div 10 mod 10 * 10 + y mod 10))"
    by (rule parseInt_two_digits) simp_all
  moreover have "y div 10 mod 10 * 10 + y mod 10 = y mod 100"
    using mod_mult2_eq [of y 10 10] by simp
  moreover have "substr_last2 (numberToString (JNum (int y)) 10)
                   = [digitChar (y div 10 mod 10), digitChar (y mod 10)]"
    using False by (simp add: numberToString_def substr_last2_natToString)
  ultimately show ?thesis by (simp only:)
qed

lemma hex_field:
  "parseInt (''0X'' @ numberToString (JNum (int n)) 16) (Some 16) = JNum (int n)"
  "stringToNumber (''0X'' @ numberToString (JNum (int n)) 16) = JNum (int n)"
  using parseInt_hex_literal [of n] stringToNumber_hex_literal [of n]
  by (simp_all add: numberToString_def)

lemma hex_field_Suc:
  "parseInt (''0X'' @ numberToString (JNum (int n + 1)) 16) (Some 16) = JNum (int (n + 1))"
  "stringToNumber (''0X'' @ numberToString (JNum (int n + 1)) 16) = JNum (int (n + 1))"
  using hex_field [of "n + 1"] by (simp_all add: add.commute)


text \<open>The ten bytes of a glucometer payload, for every reading of the clock.\<close>

lemma glucometer_payload_bytes:
  "glucometer_payload opcode t =
     [0x5a, 0x0a, word_of_int opcode,
      of_nat (getFullYear t mod 100), of_nat (getMonth t + 1), of_nat (getDate t),
      of_nat (getHours t), of_nat (getMinutes t), 0,
      of_nat ((0x5a + 0x0a + 0x00 + getFullYear t mod 100 + (getMonth t + 1) + getDate t
                + getHours t + getMinutes t + 2) mod 256)]"
proof -
  define tot where "tot = 0x5a + 0x0a + 0x00 + getFullYear t mod 100 + (getMonth t + 1) + getDate t
                + getHours t + getMinutes t + 2"
  define year where "year = ''0X'' @ numberToString
                   (parseInt (substr_last2 (numberToString (JNum (int (getFullYear t))) 10)) None) 16"
  define month where "month = ''0X'' @ numberToString (JNum (int (getMonth t) + 1)) 16"
  define dayNumber where "dayNumber = ''0X'' @ numberToString (JNum (int (getDate t))) 16"
  define hour where "hour = ''0X'' @ numberToString (JNum (int (getHours t))) 16"
  define minutes where "minutes = ''0X'' @ numberToString (JNum (int (getMinutes t))) 16"
  define check where "check = ''0X'' @ numberToString
                 (js_rem
                    (js_add (js_add (js_add (js_add (js_add (js_add (js_add (js_add
                       (parseInt ''5a'' (Some 16))
                       (parseInt ''0a'' (Some 16)))
                       (parseInt ''00'' (Some 16)))
                       (parseInt year (Some 16)))
                       (parseInt month (Some 16)))
                       (parseInt dayNumber (Some 16)))
                       (parseInt hour (Some 16)))
                       (parseInt minutes (Some 16)))
                       (JNum 2))
                    256) 16"
  have lits: "parseInt ''5a'' (Some 16) = JNum 0x5a" "parseInt ''0a'' (Some 16) = JNum 0x0a"
    "parseInt ''00'' (Some 16) = JNum 0x00"
    by code_simp+
  have fields:
    "parseInt year (Some 16) = JNum (int (getFullYear t mod 100))"
    "stringToNumber year = JNum (int (getFullYear t mod 100))"
    "parseInt month (Some 16) = JNum (int (getMonth t + 1))"
    "stringToNumber month = JNum (int (getMonth t + 1))"
    "parseInt dayNumber (Some 16) = JNum (int (getDate t))"
    "stringToNumber dayNumber = JNum (int (getDate t))"
    "parseInt hour (Some 16) = JNum (int (getHours t))"
    "stringToNumber hour = JNum (int (getHours t))"
    "parseInt minutes (Some 16) = JNum (int (getMinutes t))"
    "stringToNumber minutes = JNum (int (getMinutes t))"
    unfolding year_def month_def dayNumber_def hour_def minutes_def year_field
    by (rule hex_field hex_field_Suc)+
  have rem: "js_rem (JNum (int tot)) 256 = JNum (int (tot mod 256))"
    by (cases "tot = 0") (simp_all add: js_rem_def zmod_int)
  have "js_add (js_add (js_add (js_add (js_add (js_add (js_add (js_add
          (JNum 0x5a) (JNum 0x0a)) (JNum 0x00))
          (JNum (int (getFullYear t mod 100)))) (JNum (int (getMonth t + 1))))
          (JNum (int (getDate t)))) (JNum (int (getHours t)))) (JNum (int (getMinutes t))))
          (JNum 2) = JNum (int tot)"
    by (simp add: js_add_def tot_def)
  then have check: "stringToNumber check = JNum (int (tot mod 256))"
    unfolding check_def by (simp only: lits fields rem hex_field)
  have "glucometer_payload opcode t =
          Uint8Array_from [N (JNum 0x5a), N (JNum 0x0a), N (JNum opcode),
            S year, S month, S dayNumber, S hour, S minutes, N (JNum 0x00), S check]"
    unfolding glucometer_payload_def Let_def check_def year_def month_def dayNumber_def hour_def
      minutes_def by (rule refl)
  also have "\<dots> = [0x5a, 0x0a, word_of_int opcode,
      of_nat (getFullYear t mod 100), of_nat (getMonth t + 1), of_nat (getDate t),
      of_nat (getHours t), of_nat (getMinutes t), 0, of_nat (tot mod 256)]"
    by (simp add: Uint8Array_from_def ToNumber_def ToUint8_def fields check)
  finally show ?thesis by (simp only: tot_def)
qed

section \<open>The glucometer trailer byte\<close>

lemma byte_of_nat_mod: "(of_nat (n mod 256) :: byte) = of_nat n"
  by (simp add: word_eq_iff_unsigned [where ?'a = nat] unsigned_of_nat take_bit_eq_mod)

lemma unat_byte_eq: "(w :: byte) = of_nat n \<Longrightarrow> unat w = n mod 256"
  by (simp add: unsigned_of_nat take_bit_eq_mod)

lemma len10: "length (glucometer_payload opcode t) = 10"
  by (simp add: glucometer_payload_bytes)

lemma set_time_word:
  "setGlucometerTime_payload t ! 9 = of_nat (sum_list (map unat (take 9 (setGlucometerTime_payload t))) + 2)"
  unfolding setGlucometerTime_payload_def glucometer_payload_bytes
  by (simp add: byte_of_nat_mod)

lemma fetch_word:
  "fetchAdditionalGlucometerRecord_payload t ! 9 + 1 = of_nat (sum_list (map unat (take 9 (fetchAdditionalGlucometerRecord_payload t))))"
  unfolding fetchAdditionalGlucometerRecord_payload_def glucometer_payload_bytes
  by (simp add: byte_of_nat_mod)

text \<open>
  The fetch command computes its last byte by the same expression, in which the third
  byte \<open>0x03\<close> of its frame is entered as \<open>00\<close>: the byte is one less than the sum of
  the nine bytes before it.
\<close>

lemma fetchAdditionalGlucometerRecord_trailer:
  "unat (fetchAdditionalGlucometerRecord_payload t ! 9)
     = (sum_list (map unat (take 9 (fetchAdditionalGlucometerRecord_payload t))) + 255) mod 256"
proof -
  have "fetchAdditionalGlucometerRecord_payload t ! 9
          = of_nat (sum_list (map unat (take 9 (fetchAdditionalGlucometerRecord_payload t)))) - 1"
    using fetch_word [of t] by (simp add: algebra_simps)
  also have "\<dots> = of_nat (sum_list (map unat (take 9 (fetchAdditionalGlucometerRecord_payload t))) + 255)"
    by simp
  finally show ?thesis by (rule unat_byte_eq)
qed

text \<open>
  Claim C7, as amended. For the time-set command and every reading of the clock, the
  frame has ten bytes and its last byte is the sum of the nine bytes before it plus 2,
  modulo 256.
\<close>

theorem setGlucometerTime_trailer:
  "length (setGlucometerTime_payload t) = 10
   \<and> unat (setGlucometerTime_payload t ! 9)
       = (sum_list (map unat (take 9 (setGlucometerTime_payload t))) + 2) mod 256"
  using set_time_word [of t, THEN unat_byte_eq] len10 [of 0 t]
  by (simp add: setGlucometerTime_payload_def)

text \<open>
  Claim C7 as stated fails: on 5 March 2024 at 13:45 the last byte of either frame is
  192, while the nine bytes before it add up to 190 (time-set) and 193 (fetch).
\<close>

theorem glucometer_trailer_counterexample:
  "unat (setGlucometerTime_payload
           \<lparr>getFullYear = 2024, getMonth = 2, getDate = 5, getHours = 13, getMinutes = 45\<rparr> ! 9)
     \<noteq> sum_list (map unat (take 9 (setGlucometerTime_payload
           \<lparr>getFullYear = 2024, getMonth = 2, getDate = 5, getHours = 13, getMinutes = 45\<rparr>))) mod 256
   \<and> unat (fetchAdditionalGlucometerRecord_payload
           \<lparr>getFullYear = 2024, getMonth = 2, getDate = 5, getHours = 13, getMinutes = 45\<rparr> ! 9)
     \<noteq> sum_list (map unat (take 9 (fetchAdditionalGlucometerRecord_payload
           \<lparr>getFullYear = 2024, getMonth = 2, getDate = 5, getHours = 13, getMinutes = 45\<rparr>))) mod 256"
  by (simp add: setGlucometerTime_payload_def fetchAdditionalGlucometerRecord_payload_def
      glucometer_payload_bytes)

section \<open>The XOR checksum\<close>

declare XOR_loop.simps [simp del]

lemma XOR_step_NaN: "isNaN (toNumber v) \<Longrightarrow> XOR_step toNumber tot v = tot"
  by (simp add: XOR_step_def)

lemma XOR_step_num:
  "\<not> isNaN (toNumber v) \<Longrightarrow> XOR_step toNumber tot v = js_xor tot (toNumber v)"
  by (simp add: XOR_step_def)

lemma XOR_loop_foldl:
  "i \<le> length input \<Longrightarrow>
   XOR_loop toNumber input i tot = foldl (XOR_step toNumber) tot (drop i input)"
proof (induction toNumber input i tot rule: XOR_loop.induct)
  case (1 toNumber input i tot)
  show ?case
  proof (cases "i < length input")
    case True
    then have d: "drop i input = input ! i # drop (i + 1) input"
      by (simp add: Cons_nth_drop_Suc)
    from True 1 show ?thesis
      by (subst XOR_loop.simps) (simp add: d XOR_step_NaN XOR_step_num)
  next
    case False
    then show ?thesis by (subst XOR_loop.simps) simp
  qed
qed

lemma foldl_XOR_step_word:
  "foldl (XOR_step toNumber) tot xs =
     (if numeric toNumber xs = [] then tot
      else JNum (sint (foldl (\<lambda>acc x. acc XOR ToInt32 x) (ToInt32 tot) (numeric toNumber xs))))"
proof (induction xs arbitrary: tot)
  case Nil
  then show ?case by (simp add: numeric_def)
next
  case (Cons v xs)
  show ?case
  proof (cases "isNaN (toNumber v)")
    case True
    then show ?thesis by (simp add: Cons XOR_step_NaN numeric_def)
  next
    case False
    then show ?thesis
      by (simp add: Cons XOR_step_num numeric_def js_xor_def ToInt32_def)
  qed
qed

text \<open>
  Claim C3, as amended. For every array \<open>b\<close> and every conversion \<open>toNumber\<close> of its
  elements to numbers, \<open>XOR(b)\<close> is NaN when \<open>b\<close> has no numeric element (the empty
  array included). Otherwise it is the exclusive-or, from 0, of the numeric elements of
  \<open>b\<close> after the first: the first element starts the total and is folded in again at
  index 0, so a numeric first element cancels. Elements that are not numbers are
  skipped.
\<close>

theorem XOR_skips_first:
  "XOR_js toNumber b =
     (if numeric toNumber b = [] then JNaN
      else JNum (sint (xor_fold (numeric toNumber (tl b)))))"
proof (cases b)
  case Nil
  then show ?thesis by (simp add: XOR_js_def XOR_loop_foldl numeric_def)
next
  case (Cons v xs)
  show ?thesis
  proof (cases "isNaN (toNumber v)")
    case True
    then have "toNumber v = JNaN" by (simp add: isNaN_def split: jsnum.splits)
    with True show ?thesis
      by (simp add: Cons XOR_js_def XOR_loop_foldl foldl_XOR_step_word XOR_step_NaN numeric_def
          xor_fold_def ToInt32_def)
  next
    case False
    then show ?thesis
      by (simp add: Cons XOR_js_def XOR_loop_foldl foldl_XOR_step_word XOR_step_num numeric_def
          xor_fold_def js_xor_def ToInt32_def)
  qed
qed

text \<open>
  Claim C3 as stated fails, on arrays of numbers (each element is its own conversion):
  \<open>XOR([5])\<close> is 0 and not 5; and for the array \<open>02 40 dc 01 b2\<close> the result is \<open>2f\<close>,
  the trailer byte that \<open>fetchBloodPressureMode\<close> sends after these five bytes, while
  the fold over all five elements is \<open>2d\<close>.
\<close>

theorem XOR_counterexample:
  "XOR_js (\<lambda>x. x) [JNum 5] \<noteq> spec_xorChecksum (\<lambda>x. x) [JNum 5]
   \<and> XOR_js (\<lambda>x. x) [JNum 5] = JNum 0 \<and> spec_xorChecksum (\<lambda>x. x) [JNum 5] = JNum 5
   \<and> XOR_js (\<lambda>x. x) [JNum 0x02, JNum 0x40, JNum 0xdc, JNum 0x01, JNum 0xb2] = JNum 0x2f
   \<and> spec_xorChecksum (\<lambda>x. x) [JNum 0x02, JNum 0x40, JNum 0xdc, JNum 0x01, JNum 0xb2] = JNum 0x2d"
  by code_simp

text \<open>
  With a conversion that reads the string \<open>-5\<close> as the number it is, \<open>XOR([1, '-5'])\<close>
  is -5 and \<open>XOR(['-5'])\<close> is 0; an element that converts to NaN is passed over.
\<close>

lemma XOR_signed_string_elements:
  "XOR_js (\<lambda>v. case v of N x \<Rightarrow> x | S s \<Rightarrow> if s = ''-5'' then JNum (- 5) else JNaN)
     [N (JNum 1), S ''-5''] = JNum (- 5)
   \<and> XOR_js (\<lambda>v. case v of N x \<Rightarrow> x | S s \<Rightarrow> if s = ''-5'' then JNum (- 5) else JNaN)
       [S ''-5''] = JNum 0
   \<and> XOR_js (\<lambda>v. case v of N x \<Rightarrow> x | S s \<Rightarrow> if s = ''-5'' then JNum (- 5) else JNaN)
       [S ''abc'', N (JNum 7), N (JNum 9)] = JNum 14"
  by code_simp

section \<open>The additive checksum and the tracker frame\<close>

declare calculateChecksum_loop.simps [simp del]

text \<open>\<open>calculateChecksum\<close> is the sum of the bytes modulo 256.\<close>

lemma calculateChecksum_loop_sum:
  "i \<le> length array \<Longrightarrow>
   calculateChecksum_loop array i sm = sm + sum_list (map uint (drop i array))"
proof (induction array i sm rule: calculateChecksum_loop.induct)
  case (1 array i sm)
  show ?case
  proof (cases "i < length array")
    case True
    then have d: "drop i array = array ! i # drop (i + 1) array"
      by (simp add: Cons_nth_drop_Suc)
    from True 1 show ?thesis
      by (subst calculateChecksum_loop.simps) (simp add: d)
  next
    case False
    then show ?thesis by (subst calculateChecksum_loop.simps) simp
  qed
qed

lemma and_255_mod: "sint ((word_of_int s :: 32 word) AND 0xff) = s mod 256"
proof -
  have "s AND 255 = take_bit 8 s"
    by (simp add: take_bit_eq_mask mask_eq_exp_minus_1)
  then have m: "s AND 255 = s mod 256"
    by (simp add: take_bit_eq_mod)
  have "(word_of_int s :: 32 word) AND 0xff = word_of_int (s AND 255)"
    by (simp add: of_int_and_eq)
  then have "sint ((word_of_int s :: 32 word) AND 0xff) = signed_take_bit 31 (s mod 256)"
    by (simp add: m signed_of_int)
  also have "\<dots> = s mod 256"
    by (rule signed_take_bit_int_eq_self) (simp_all add: order.trans [of _ 0])
  finally show ?thesis .
qed

lemma calculateChecksum_sum:
  "calculateChecksum array = JNum (sum_list (map uint array) mod 256)"
  by (simp add: calculateChecksum_def calculateChecksum_loop_sum and_255_mod)

text \<open>
  Claim C4. For the date string \<open>2024-03-05T13:45:12\<close> the frame of \<open>setDeviceTime\<close> has
  16 bytes: byte 0 is \<open>0x01\<close>; bytes 1 to 6 are the pieces \<open>24\<close>, \<open>03\<close>, \<open>05\<close>, \<open>13\<close>,
  \<open>45\<close>, \<open>12\<close> of the date read as hexadecimal; bytes 7 to 14 are zero; byte 15 is
  the checksum of bytes 0 to 14, their sum modulo 256.
\<close>

theorem setDeviceTime_scenario:
  "setDeviceTime_frame ''2024-03-05T13:45:12''
     = [0x01, 0x24, 0x03, 0x05, 0x13, 0x45, 0x12, 0, 0, 0, 0, 0, 0, 0, 0, 0x97]
   \<and> length (setDeviceTime_frame ''2024-03-05T13:45:12'') = 16
   \<and> map (\<lambda>(a, b). ToUint8 (parseInt (slice ''2024-03-05T13:45:12'' a b) (Some 16)))
         [(2, 4), (5, 7), (8, 10), (11, 13), (14, 16), (17, 19)]
       = take 6 (drop 1 (setDeviceTime_frame ''2024-03-05T13:45:12''))
   \<and> calculateChecksum (take 15 (setDeviceTime_frame ''2024-03-05T13:45:12''))
       = JNum (uint (setDeviceTime_frame ''2024-03-05T13:45:12'' ! 15))
   \<and> unat (setDeviceTime_frame ''2024-03-05T13:45:12'' ! 15)
       = sum_list (map unat (take 15 (setDeviceTime_frame ''2024-03-05T13:45:12''))) mod 256"
  by code_simp

section \<open>The scale frames\<close>

lemma ucast_16_8: "(ucast (word_of_int k :: 16 word) :: byte) = word_of_int k"
  by (rule bit_word_eqI) (simp add: bit_simps)


lemma setUserProfileToScales_bytes_eq:
  "setUserProfileToScales_bytes age height gender =
     [0xfd, 0x53, 0x00, 0x00, 0xff,
      word_of_int (if gender = ''male'' then age + 128 else age),
      word_of_int (if height < 100 then 100 else if height > 218 then 218 else height)]"
  by (simp add: setUserProfileToScales_bytes_def setUserProfileToScales_array_def ToUint16_def
      ucast_16_8 Let_def)


lemma parseInt_number:
  "0 \<le> k \<Longrightarrow> parseInt (numberToString (JNum k) 10) None = JNum k"
  using parseInt_decimal [of "nat k"] by (simp add: numberToString_def)

lemma length_store8 [simp]: "length (store8 a i v) = length a"
  by (simp add: store8_def)

lemma nth_store8:
  "j < length a \<Longrightarrow> store8 a i v ! j = (if i = j then ToUint8 v else a ! j)"
  by (simp add: store8_def)

text \<open>
  \<open>setUserProfileToAlternativeScale\<close> stores the clamped height and the clamped age, for
  every input.
\<close>

lemma setUserProfileToAlternativeScale_clamps:
  "length (setUserProfileToAlternativeScale_frame user age height gender) = 13
   \<and> setUserProfileToAlternativeScale_frame user age height gender ! 8
       = word_of_int (if height < 100 then 100 else if height > 218 then 218 else height)
   \<and> setUserProfileToAlternativeScale_frame user age height gender ! 9
       = word_of_int (if age < 10 then 10 else if age > 98 then 98 else age)"
  by (simp add: setUserProfileToAlternativeScale_frame_def Let_def nth_store8 Uint8Array_new_def
      parseInt_number ToUint8_def)

text \<open>
  Claim C6 at the inputs it names. Height 50 is sent as 100 and height 300 as 218 by
  \<open>setUserProfileToScales\<close>, but age 5 is sent as 5 (133 for \<open>male\<close>) and age 150 as 150,
  not as 10 and 98; \<open>setUserProfileToAlternativeScale\<close> sends 10 and 98.
\<close>

theorem setUserProfileToScales_age_unclamped:
  "setUserProfileToScales_bytes 5 50 ''female'' = [0xfd, 0x53, 0x00, 0x00, 0xff, 5, 100]
   \<and> setUserProfileToScales_bytes 150 300 ''female'' = [0xfd, 0x53, 0x00, 0x00, 0xff, 150, 218]
   \<and> setUserProfileToScales_bytes 5 50 ''male'' = [0xfd, 0x53, 0x00, 0x00, 0xff, 133, 100]
   \<and> setUserProfileToAlternativeScale_frame ''0a1b2c3d'' 5 50 1 ! 9 = 10
   \<and> setUserProfileToAlternativeScale_frame ''0a1b2c3d'' 150 300 1 ! 9 = 98"
  by (simp add: setUserProfileToScales_bytes_eq setUserProfileToAlternativeScale_clamps)

section \<open>Monitor subscriptions\<close>

lemma wrapped_remove_twice:
  "subscription_remove (WrappedSubscription sid h) (subscription_remove (WrappedSubscription sid h) m)
     = subscription_remove (WrappedSubscription sid h) m"
  by (simp add: emitter_remove_def delete_conv)

text \<open>
  Claim C1, as amended. The object a monitoring operation returns is the one holding
  the transaction id. Its \<open>remove()\<close>, in any state of the manager and so at the first,
  the second and every later call, appends one \<open>cancelTransaction(transactionId)\<close> to
  the native calls and changes nothing else. The guard against a second removal is on
  the wrapped subscription: removing that one twice is the same as removing it once.
\<close>

theorem monitor_subscription_remove:
  "fst (handleMonitorCharacteristic transactionId listener m0) = CancelSubscription transactionId
   \<and> nativeCalls (subscription_remove (fst (handleMonitorCharacteristic transactionId listener m0)) m)
       = nativeCalls m @ [CancelTransaction transactionId]
   \<and> subscription_remove (fst (handleMonitorCharacteristic transactionId listener m0)) m
       = m\<lparr>nativeCalls := nativeCalls m @ [CancelTransaction transactionId]\<rparr>
   \<and> subscription_remove (WrappedSubscription sid h) (subscription_remove (WrappedSubscription sid h) m)
       = subscription_remove (WrappedSubscription sid h) m"
  by (simp add: handleMonitorCharacteristic_def Let_def split_beta wrapped_remove_twice
      del: subscription_remove.simps(2))

text \<open>
  Claim C1 as stated fails: after \<open>monitorCharacteristicForDevice\<close> with transaction id
  \<open>B\<close> on a new manager, the second \<open>remove()\<close> issues a second
  \<open>cancelTransaction(B)\<close>.
\<close>

theorem monitor_remove_twice_counterexample:
  "(let (sub, m) = monitorCharacteristicForDevice ''device'' ''180F'' ''2A19'' 7 (Some ''B'')
                     (new_BleManager :: unit BleManager);
        m1 = subscription_remove sub m;
        m2 = subscription_remove sub m1
    in nativeCalls m1 = [MonitorCharacteristicForDevice ''device'' ''180F'' ''2A19'' ''B'',
                         CancelTransaction ''B'']
     \<and> nativeCalls m2 = [MonitorCharacteristicForDevice ''device'' ''180F'' ''2A19'' ''B'',
                         CancelTransaction ''B'', CancelTransaction ''B''])"
  by (simp add: monitorCharacteristicForDevice_def handleMonitorCharacteristic_def
      fillTransactionId_def new_BleManager_def nextUniqueID_def callPromise_start_def
      Let_def split_beta)

lemma monitorListener_other_tag:
  "A \<noteq> B \<Longrightarrow> monitorListener E B listener (error, characteristic, A) calls = calls"
  by (simp add: monitorListener_def)

lemma monitorListener_calls:
  "filter (\<lambda>c. fst c \<noteq> A) (monitorListener E tid listener (error, characteristic, A) calls)
     = filter (\<lambda>c. fst c \<noteq> A) calls"
  by (simp add: monitorListener_def split: option.splits)

lemma emit_fold_calls:
  "filter (\<lambda>c. fst c \<noteq> A)
     (fold (\<lambda>(h, transactionId, listener) calls.
              monitorListener E transactionId listener (error, characteristic, A) calls) ls calls)
     = filter (\<lambda>c. fst c \<noteq> A) calls"
  by (induction ls arbitrary: calls) (simp_all add: split_beta monitorListener_calls)

text \<open>
  Claim C8. For a monitor created with transaction id \<open>B\<close>, an event tagged \<open>A\<close> with
  \<open>A \<noteq> B\<close> leaves the calls of its listener as they were: the closure
  \<open>monitorListener\<close> returns at once, and when the emitter delivers the event to all
  registered monitors, the calls made for \<open>B\<close> are the same before and after.
\<close>

theorem monitor_transaction_isolation:
  assumes "A \<noteq> B"
  shows "monitorListener E B listener (error, characteristic, A) calls = calls
    \<and> filter (\<lambda>c. fst c = B) (listenerCalls (emitReadEvent E (error, characteristic, A) m))
       = filter (\<lambda>c. fst c = B) (listenerCalls m)"
proof -
  have "filter (\<lambda>c. fst c = B) (filter (\<lambda>c. fst c \<noteq> A) (listenerCalls (emitReadEvent E (error, characteristic, A) m)))
      = filter (\<lambda>c. fst c = B) (filter (\<lambda>c. fst c \<noteq> A) (listenerCalls m))"
    using emit_fold_calls [of A E error characteristic "readEventListeners m" "listenerCalls m"]
    by (simp add: emitReadEvent_def)
  moreover have "\<And>xs :: 'a listener_call list.
      filter (\<lambda>c. fst c = B) (filter (\<lambda>c. fst c \<noteq> A) xs) = filter (\<lambda>c. fst c = B) xs"
    using assms by (auto intro: filter_cong)
  ultimately show ?thesis
    using assms by (simp add: monitorListener_other_tag)
qed

text \<open>
  Two monitors, for \<open>A\<close> (listener 1) and \<open>B\<close> (listener 2), on a new manager: an
  event tagged \<open>A\<close> calls listener 1 only.
\<close>

theorem monitor_transaction_isolation_witness:
  "(let E = \<lparr>BleError_new = (\<lambda>c. c), message = (\<lambda>c. []), parseBleError = (\<lambda>s. OtherErrorCode 0)\<rparr>;
        m1 = snd (monitorCharacteristicForDevice ''device'' ''180F'' ''2A19'' 1 (Some ''A'') new_BleManager);
        m2 = snd (monitorCharacteristicForDevice ''device'' ''180F'' ''2A19'' 2 (Some ''B'') m1)
    in ''A'' \<noteq> ''B''
     \<and> monitorListener E ''B'' 2 (None, ''payload'', ''A'') [] = []
     \<and> filter (\<lambda>c. fst c = ''B'') (listenerCalls (emitReadEvent E (None, ''payload'', ''A'') m2))
         = filter (\<lambda>c. fst c = ''B'') (listenerCalls m2)
     \<and> listenerCalls (emitReadEvent E (None, ''payload'', ''A'') m2) = [(''A'', 1, None, Some ''payload'')])"
proof -
  have h: "''A'' \<noteq> ''B''" by simp
  show ?thesis
    using h monitor_transaction_isolation [OF h,
        of "\<lparr>BleError_new = (\<lambda>c. c), message = (\<lambda>c. []), parseBleError = (\<lambda>s. OtherErrorCode 0)\<rparr>"
           2 None "''payload''" "[]"]
    by (simp add: monitorCharacteristicForDevice_def handleMonitorCharacteristic_def
        fillTransactionId_def new_BleManager_def nextUniqueID_def callPromise_start_def
        emitReadEvent_def monitorListener_def Let_def split_beta)
qed

section \<open>The use of measurementUnit before its initialization\<close>

text \<open>
  Claim C9. The initializer of \<open>measurementUnit\<close> reads the binding it initializes, so
  for every input \<open>selectProfileAlternativeScale\<close> throws the reference error: no write
  is issued and no \<open>_callPromise\<close> call is started.
\<close>

theorem selectProfileAlternativeScale_faults:
  "fst (selectProfileAlternativeScale deviceIdentifier user transactionId m)
     = Inl (ReferenceError ''measurementUnit'')
   \<and> nativeCalls (snd (selectProfileAlternativeScale deviceIdentifier user transactionId m)) = nativeCalls m
   \<and> activePromises (snd (selectProfileAlternativeScale deviceIdentifier user transactionId m))
       = activePromises m"
  by (simp add: selectProfileAlternativeScale_def readBinding_def fillTransactionId_def
      nextUniqueID_def split_beta split: option.splits)

section \<open>Destroying the manager\<close>

lemma subscription_remove_promises:
  "activePromises (subscription_remove s m) = activePromises m"
  "races (subscription_remove s m) = races m"
  "outcomes (subscription_remove s m) = outcomes m"
  by (cases s; simp add: emitter_remove_def)+

lemma destroySubscriptions_promises:
  "activePromises (destroySubscriptions m) = activePromises m"
  "races (destroySubscriptions m) = races m"
  "outcomes (destroySubscriptions m) = outcomes m"
proof -
  have "activePromises (fold (\<lambda>sid m'. case map_of (activeSubscriptions m') sid of
                       None \<Rightarrow> m' | Some s \<Rightarrow> subscription_remove s m') ks m) = activePromises m
      \<and> races (fold (\<lambda>sid m'. case map_of (activeSubscriptions m') sid of
                       None \<Rightarrow> m' | Some s \<Rightarrow> subscription_remove s m') ks m) = races m
      \<and> outcomes (fold (\<lambda>sid m'. case map_of (activeSubscriptions m') sid of
                       None \<Rightarrow> m' | Some s \<Rightarrow> subscription_remove s m') ks m) = outcomes m" for ks
    by (induction ks arbitrary: m) (simp_all add: subscription_remove_promises split: option.splits)
  then show "activePromises (destroySubscriptions m) = activePromises m"
    "races (destroySubscriptions m) = races m"
    "outcomes (destroySubscriptions m) = outcomes m"
    by (simp_all add: destroySubscriptions_def)
qed

lemma settle_race_fields:
  "outcomes (settle_race pid r m) = outcomes m"
  "activePromises (settle_race pid r m) = activePromises m"
  "map_of (races (settle_race pid r m)) q =
     (if q = pid \<and> map_of (races m) pid = None then Some r else map_of (races m) q)"
  by (auto simp add: settle_race_def map_add_def split: option.splits)

lemma fold_reject_hook:
  "outcomes (fold (\<lambda>pid m'. reject_hook pid e m') ps m) = outcomes m
   \<and> map_of (races (fold (\<lambda>pid m'. reject_hook pid e m') ps m)) q =
       (if q \<in> set ps \<and> map_of (races m) q = None
        then Some (RaceRejected (HookRejection e)) else map_of (races m) q)"
  by (induction ps arbitrary: m) (auto simp add: reject_hook_def settle_race_fields)

lemma destroy_races:
  "outcomes (destroy E m) = outcomes m"
  "map_of (races (destroy E m)) q =
     (if q \<in> set (activePromises m) \<and> map_of (races m) q = None
      then Some (RaceRejected (HookRejection (BleError_new E BluetoothManagerDestroyed)))
      else map_of (races m) q)"
  by (simp_all add: destroy_def destroyPromises_def Let_def fold_reject_hook
      destroySubscriptions_promises emitter_remove_def split: option.splits)

lemma run_thenHandler_promises:
  "races (run_thenHandler pid res m) = races m"
  "outcomes (run_thenHandler pid res m) = outcomes m"
  by (simp_all add: run_thenHandler_def subscription_remove_promises split: option.splits outcome.splits)

lemma callPromise_resume_fields:
  "races (callPromise_resume E p m) = races m"
  "map_of (outcomes (callPromise_resume E p m)) q =
     (if q = p \<and> map_of (outcomes m) p = None
      then map_option (promise_result E) (map_of (races m) p)
      else map_of (outcomes m) q)"
  by (auto simp add: callPromise_resume_def run_thenHandler_promises Let_def promise_result_def
      map_add_def split: option.splits)

lemma fold_resume:
  "races (fold (callPromise_resume E) ps m) = races m
   \<and> map_of (outcomes (fold (callPromise_resume E) ps m)) q =
       (if q \<in> set ps \<and> map_of (outcomes m) q = None
        then map_option (promise_result E) (map_of (races m) q)
        else map_of (outcomes m) q)"
proof (induction ps arbitrary: m)
  case Nil
  then show ?case by simp
next
  case (Cons p ps)
  show ?case
    by (simp add: Cons callPromise_resume_fields) (auto split: option.splits)
qed

text \<open>
  What \<open>destroy\<close> does to the pending calls: each of them fails, with the error that
  \<open>parseBleError\<close> makes of the message of the \<open>BluetoothManagerDestroyed\<close> error.
\<close>

lemma destroy_fails_every_pending:
  assumes "pending m pid"
  shows "map_of (outcomes (resume_all E (destroy E m))) pid
           = Some (Failed (parseBleError E (message E (BleError_new E BluetoothManagerDestroyed))))"
proof -
  let ?e = "BleError_new E BluetoothManagerDestroyed"
  from assms have race: "map_of (races (destroy E m)) pid = Some (RaceRejected (HookRejection ?e))"
    and out: "map_of (outcomes (destroy E m)) pid = None"
    by (simp_all add: pending_def destroy_races)
  from race have "pid \<in> set (map fst (races (destroy E m)))"
    by (auto dest: map_of_SomeD intro: rev_image_eqI)
  with race out show ?thesis
    by (simp add: resume_all_def fold_resume promise_result_def rejection_message_def)
qed

end
